theory Spec2Isabelle
  imports Main "HOL-Library.AList"
begin

section \<open>Data model\<close>

text \<open>
  The development follows \<^verbatim>\<open>src/tsp_solver/little_tsp/cost_matrix.cpp\<close>.
  Vertex ids, condensed indices and iterator positions are the source's non-negative
  \<^verbatim>\<open>int\<close>s, written as \<open>nat\<close>; costs and the accumulated reduction are
  mathematical integers (the model describes runs in which no \<^verbatim>\<open>int\<close>
  overflows). Every throw, failed assertion and out-of-range access of the source is a
  value of type \<open>error\<close>.
\<close>

datatype error = NotAvailableError | AssertionFailed | OutOfRange | DivisionByZero

text \<open>\<^verbatim>\<open>Edge{u, v}\<close>: origin \<open>u\<close> and destination \<open>v\<close>.\<close>

datatype Edge = Edge (edge_u: nat) (edge_v: nat)

subsection \<open>The cost cell\<close>

text \<open>
  Modelled from the spec: the class \<^verbatim>\<open>CostMatrixInteger\<close> of the absent
  \<^verbatim>\<open>cost_matrix_integer.hpp\<close>. A cost cell is \<open>{value, isInfinite, sourceEdge}\<close>.
\<close>

record CostMatrixInteger =
  cmi_value :: int
  cmi_infinite :: bool
  cmi_edge :: Edge

text \<open>
  Modelled from the spec: the constructor \<^verbatim>\<open>CostMatrixInteger{graph(i, j), Edge{i, j}}\<close>
  of the absent header. It creates a cell holding the cost, with the edge as provenance;
  a cell becomes infinite by \<^verbatim>\<open>SetInfinite\<close> only.
\<close>

definition CostMatrixInteger_ctor :: "int \<Rightarrow> Edge \<Rightarrow> CostMatrixInteger" where
  "CostMatrixInteger_ctor x e = \<lparr>cmi_value = x, cmi_infinite = False, cmi_edge = e\<rparr>"

text \<open>Modelled from the spec: \<^verbatim>\<open>IsInfinite()\<close> of the absent header, the cell's flag.\<close>

definition IsInfinite :: "CostMatrixInteger \<Rightarrow> bool" where
  "IsInfinite c = cmi_infinite c"

text \<open>
  Modelled from the spec: \<^verbatim>\<open>SetInfinite()\<close> of the absent header, the explicit
  "set infinite" mutation.
\<close>

definition SetInfinite :: "CostMatrixInteger \<Rightarrow> CostMatrixInteger" where
  "SetInfinite c = c\<lparr>cmi_infinite := True\<rparr>"

text \<open>
  Modelled from the spec: \<^verbatim>\<open>operator-=\<close> of the absent header, as in
  \<^verbatim>\<open>elt -= other\<close>. Subtraction on an infinite cell is a no-op; on a finite cell it
  subtracts the other cell's value. The value read by \<^verbatim>\<open>min()\<close> is \<open>cmi_value\<close>.
\<close>

definition cmi_minus :: "CostMatrixInteger \<Rightarrow> CostMatrixInteger \<Rightarrow> CostMatrixInteger" where
  "cmi_minus elt other =
     (if cmi_infinite elt then elt else elt\<lparr>cmi_value := cmi_value elt - cmi_value other\<rparr>)"

text \<open>
  Modelled from the spec: \<^verbatim>\<open>operator<\<close> of the absent header, as used by
  \<^verbatim>\<open>std::min_element\<close>. An infinite cell is larger than any finite value, and no
  cell is smaller than an infinite one but a finite one.
\<close>

definition cmi_less :: "CostMatrixInteger \<Rightarrow> CostMatrixInteger \<Rightarrow> bool" where
  "cmi_less a b =
     (if cmi_infinite a then False
      else if cmi_infinite b then True
      else cmi_value a < cmi_value b)"

subsection \<open>The storage\<close>

text \<open>
  Modelled from the spec: the class \<^verbatim>\<open>Matrix<T>\<close> of the absent \<^verbatim>\<open>matrix.hpp\<close>,
  at \<open>T = CostMatrixInteger\<close>. It is plain rectangular storage with a row count
  (\<^verbatim>\<open>GetNumRows\<close>), a column count (\<^verbatim>\<open>GetNumColumns\<close>) and \<open>(row, col)\<close> access.
\<close>

record Matrix =
  numRows :: nat
  numColumns :: nat
  entries :: "nat \<times> nat \<Rightarrow> CostMatrixInteger"

text \<open>
  Modelled from the spec: the cell a fresh storage holds before the constructor
  overwrites it (the default constructor of the absent cell class); no claim reads it.
\<close>

definition default_cell :: CostMatrixInteger where
  "default_cell = \<lparr>cmi_value = 0, cmi_infinite = False, cmi_edge = Edge 0 0\<rparr>"

text \<open>Modelled from the spec: \<^verbatim>\<open>SetSize\<close> of the absent \<^verbatim>\<open>matrix.hpp\<close>.\<close>

definition SetSize :: "nat \<Rightarrow> nat \<Rightarrow> Matrix" where
  "SetSize r c = \<lparr>numRows = r, numColumns = c, entries = (\<lambda>_. default_cell)\<rparr>"

text \<open>
  Modelled from the spec: \<^verbatim>\<open>Matrix::operator()(row, col)\<close> of the absent
  \<^verbatim>\<open>matrix.hpp\<close>, read (\<open>Matrix_at\<close>) and assigned through (\<open>Matrix_set\<close>). An
  access outside the rectangle is the error \<open>OutOfRange\<close>.
\<close>

definition Matrix_at :: "Matrix \<Rightarrow> nat \<Rightarrow> nat \<Rightarrow> error + CostMatrixInteger" where
  "Matrix_at m r c =
     (if r < numRows m \<and> c < numColumns m then Inr (entries m (r, c)) else Inl OutOfRange)"

definition Matrix_set :: "Matrix \<Rightarrow> nat \<Rightarrow> nat \<Rightarrow> CostMatrixInteger \<Rightarrow> error + Matrix" where
  "Matrix_set m r c x =
     (if r < numRows m \<and> c < numColumns m
      then Inr (m\<lparr>entries := (entries m)((r, c) := x)\<rparr>)
      else Inl OutOfRange)"

section \<open>Row and column views and their iterator\<close>

text \<open>
  \<^verbatim>\<open>CostRow{&m, row_num}\<close> and \<^verbatim>\<open>CostColumn{&m, column_num}\<close>, as the two
  constructors of the source build them. The matrix the view points to is passed to each
  operation.
\<close>

datatype CostVector = CostRow nat | CostColumn nat

text \<open>
  Modelled from the spec: the virtual \<^verbatim>\<open>Size()\<close>, \<^verbatim>\<open>GetRow(cell_num)\<close> and
  \<^verbatim>\<open>GetColumn(cell_num)\<close> of a view, declared in the absent \<^verbatim>\<open>cost_matrix.hpp\<close>. A
  row view fixes the row and varies the column, cell \<open>k\<close> being the \<open>k\<close>-th column, for
  \<open>k\<close> in \<open>[0, size)\<close>; a column view fixes the column and varies the row.
\<close>

fun Size_vec :: "Matrix \<Rightarrow> CostVector \<Rightarrow> nat" where
  "Size_vec m (CostRow row_num) = numColumns m"
| "Size_vec m (CostColumn column_num) = numRows m"

fun GetRow_vec :: "CostVector \<Rightarrow> nat \<Rightarrow> nat" where
  "GetRow_vec (CostRow row_num) cell_num = row_num"
| "GetRow_vec (CostColumn column_num) cell_num = cell_num"

fun GetColumn_vec :: "CostVector \<Rightarrow> nat \<Rightarrow> nat" where
  "GetColumn_vec (CostRow row_num) cell_num = cell_num"
| "GetColumn_vec (CostColumn column_num) cell_num = column_num"

text \<open>\<^verbatim>\<open>CostVector::operator[]\<close>, reading and writing.\<close>

definition vec_at :: "Matrix \<Rightarrow> CostVector \<Rightarrow> nat \<Rightarrow> error + CostMatrixInteger" where
  "vec_at m vec cell_num = Matrix_at m (GetRow_vec vec cell_num) (GetColumn_vec vec cell_num)"

definition vec_set :: "Matrix \<Rightarrow> CostVector \<Rightarrow> nat \<Rightarrow> CostMatrixInteger \<Rightarrow> error + Matrix" where
  "vec_set m vec cell_num x =
     Matrix_set m (GetRow_vec vec cell_num) (GetColumn_vec vec cell_num) x"

text \<open>
  \<^verbatim>\<open>CostVector::Iterator\<close> with its fields \<^verbatim>\<open>cost_vector_ptr_\<close> and
  \<^verbatim>\<open>traversing_cell_index_\<close>; two iterators are equal when both fields are.
\<close>

record VecIterator =
  cost_vector_ptr :: CostVector
  traversing_cell_index :: nat

text \<open>
  Modelled from the spec: \<^verbatim>\<open>begin()\<close> and \<^verbatim>\<open>end()\<close> of a view, declared in the
  absent header. The iterator starts at cell \<open>0\<close> and equals the end sentinel when its
  index is \<open>size\<close>.
\<close>

definition vec_begin :: "CostVector \<Rightarrow> VecIterator" where
  "vec_begin vec = \<lparr>cost_vector_ptr = vec, traversing_cell_index = 0\<rparr>"

definition vec_end :: "Matrix \<Rightarrow> CostVector \<Rightarrow> VecIterator" where
  "vec_end m vec = \<lparr>cost_vector_ptr = vec, traversing_cell_index = Size_vec m vec\<rparr>"

text \<open>\<^verbatim>\<open>CostVector::Iterator::operator++()\<close> (prefix): the advanced iterator.\<close>

definition vec_incr :: "Matrix \<Rightarrow> VecIterator \<Rightarrow> VecIterator" where
  "vec_incr m it =
     (if traversing_cell_index it < Size_vec m (cost_vector_ptr it)
      then it\<lparr>traversing_cell_index := traversing_cell_index it + 1\<rparr>
      else it)"

text \<open>
  \<^verbatim>\<open>CostVector::Iterator::operator++(int)\<close> (postfix): the pair of the iterator
  returned (a copy at the old index) and the advanced iterator.
\<close>

definition vec_post_incr :: "Matrix \<Rightarrow> VecIterator \<Rightarrow> VecIterator \<times> VecIterator" where
  "vec_post_incr m it =
     (let current_traversing_cell_index = traversing_cell_index it;
          it' = (if traversing_cell_index it < Size_vec m (cost_vector_ptr it)
                 then it\<lparr>traversing_cell_index := traversing_cell_index it + 1\<rparr>
                 else it)
      in (\<lparr>cost_vector_ptr = cost_vector_ptr it,
           traversing_cell_index = current_traversing_cell_index\<rparr>, it'))"

section \<open>The whole-matrix iterator\<close>

text \<open>
  \<^verbatim>\<open>CostMatrix::Iterator\<close> holds \<^verbatim>\<open>row_num_\<close> and \<^verbatim>\<open>column_num_\<close>
  (fields \<open>it_row_num\<close> and \<open>it_column_num\<close>); the matrix it points to is passed to
  each operation.
\<close>

record MatIterator =
  it_row_num :: nat
  it_column_num :: nat

text \<open>
  Modelled from the spec: \<^verbatim>\<open>begin()\<close> and \<^verbatim>\<open>end()\<close> of the whole-matrix
  iterator, declared in the absent header. The traversal is row-major, so it starts at
  the first cell \<open>(0, 0)\<close>; the end state is \<open>(numRows, 0)\<close>.
\<close>

definition mat_begin :: MatIterator where
  "mat_begin = \<lparr>it_row_num = 0, it_column_num = 0\<rparr>"

definition mat_end :: "Matrix \<Rightarrow> MatIterator" where
  "mat_end m = \<lparr>it_row_num = numRows m, it_column_num = 0\<rparr>"

text \<open>
  \<^verbatim>\<open>CostMatrix::Iterator::MoveToNextCell\<close>; both increment operators call it. The
  remainder by a column count of zero is undefined in the source; here it is the error
  \<open>DivisionByZero\<close>.
\<close>

definition MoveToNextCell :: "Matrix \<Rightarrow> MatIterator \<Rightarrow> error + MatIterator" where
  "MoveToNextCell m it =
     (if it_row_num it = numRows m \<and> it_column_num it = 0 then Inr it
      else if numColumns m = 0 then Inl DivisionByZero
      else (let column_num = (it_column_num it + 1) mod numColumns m
            in Inr \<lparr>it_row_num = (if column_num = 0 then it_row_num it + 1 else it_row_num it),
                    it_column_num = column_num\<rparr>))"

text \<open>\<open>n\<close> successive increments, stopping at the first error.\<close>

fun mat_advance :: "Matrix \<Rightarrow> nat \<Rightarrow> MatIterator \<Rightarrow> error + MatIterator" where
  "mat_advance m 0 it = Inr it"
| "mat_advance m (Suc n) it =
     (case MoveToNextCell m it of Inl e \<Rightarrow> Inl e | Inr it' \<Rightarrow> mat_advance m n it')"

section \<open>The condensed cost matrix\<close>

text \<open>
  Modelled from the spec: the class \<^verbatim>\<open>Graph\<close> of the absent \<^verbatim>\<open>graph/graph.hpp\<close>.
  A graph exposes its vertex count and a cost \<open>graph(i, j)\<close> for every ordered pair of
  vertices.
\<close>

record Graph =
  GetNumVertices :: nat
  graph_cost :: "nat \<Rightarrow> nat \<Rightarrow> int"

text \<open>
  \<^verbatim>\<open>unordered_map<int, int>\<close> is an association list with one entry per key:
  \<^verbatim>\<open>mapping[k] = x\<close> is \<open>AList.update k x\<close>, \<^verbatim>\<open>find\<close> and \<^verbatim>\<open>at\<close> are
  \<open>map_of\<close>, \<^verbatim>\<open>size()\<close> is \<open>length\<close>.
\<close>

type_synonym vector_mapping = "(nat \<times> nat) list"

text \<open>
  \<^verbatim>\<open>CostMatrix\<close> with the members the source uses: \<^verbatim>\<open>row_mapping_\<close>,
  \<^verbatim>\<open>column_mapping_\<close> and \<^verbatim>\<open>cost_matrix_\<close>.
\<close>

record CostMatrix =
  row_mapping :: vector_mapping
  column_mapping :: vector_mapping
  cost_matrix :: Matrix

text \<open>\<^verbatim>\<open>MakeVectorMapping\<close>: the loop over \<open>cell_num\<close>, then the function.\<close>

function MakeVectorMapping_loop ::
  "bool list \<Rightarrow> nat \<Rightarrow> nat \<Rightarrow> vector_mapping \<Rightarrow> vector_mapping" where
  "MakeVectorMapping_loop available cell_num condensed_matrix_current_cell mapping =
     (if cell_num < length available then
        (if \<not> available ! cell_num
         then MakeVectorMapping_loop available (Suc cell_num) condensed_matrix_current_cell mapping
         else MakeVectorMapping_loop available (Suc cell_num) (Suc condensed_matrix_current_cell)
                (AList.update cell_num condensed_matrix_current_cell mapping))
      else mapping)"
  by pat_completeness auto
termination
  by (relation "measure (\<lambda>(available, cell_num, _, _). length available - cell_num)") auto

definition MakeVectorMapping :: "bool list \<Rightarrow> vector_mapping" where
  "MakeVectorMapping available = MakeVectorMapping_loop available 0 0 []"

text \<open>
  Modelled from the spec: \<^verbatim>\<open>IsRowAvailable\<close> and \<^verbatim>\<open>IsColumnAvailable\<close>,
  declared in the absent \<^verbatim>\<open>cost_matrix.hpp\<close>. The mappings contain exactly the
  vertices that remain available, so a vertex is available when its mapping has it.
\<close>

definition IsRowAvailable :: "CostMatrix \<Rightarrow> nat \<Rightarrow> bool" where
  "IsRowAvailable cm row_num = (map_of (row_mapping cm) row_num \<noteq> None)"

definition IsColumnAvailable :: "CostMatrix \<Rightarrow> nat \<Rightarrow> bool" where
  "IsColumnAvailable cm column_num = (map_of (column_mapping cm) column_num \<noteq> None)"

text \<open>\<^verbatim>\<open>at\<close> on a missing key throws \<^verbatim>\<open>std::out_of_range\<close>: \<open>OutOfRange\<close>.\<close>

definition GetCondensedRowNum :: "CostMatrix \<Rightarrow> nat \<Rightarrow> error + nat" where
  "GetCondensedRowNum cm row_num =
     (if \<not> IsRowAvailable cm row_num then Inl NotAvailableError
      else (case map_of (row_mapping cm) row_num of None \<Rightarrow> Inl OutOfRange | Some r \<Rightarrow> Inr r))"

definition GetCondensedColumnNum :: "CostMatrix \<Rightarrow> nat \<Rightarrow> error + nat" where
  "GetCondensedColumnNum cm column_num =
     (if \<not> IsColumnAvailable cm column_num then Inl NotAvailableError
      else (case map_of (column_mapping cm) column_num of
              None \<Rightarrow> Inl OutOfRange | Some c \<Rightarrow> Inr c))"

text \<open>
  \<^verbatim>\<open>operator()(const Edge&)\<close>: the cell read through the returned reference
  (\<open>CostMatrix_at\<close>) and the matrix after an assignment through it
  (\<open>CostMatrix_assign\<close>); \<^verbatim>\<open>operator()(row_num, column_num)\<close> forwards to it.
\<close>

definition CostMatrix_at :: "CostMatrix \<Rightarrow> Edge \<Rightarrow> error + CostMatrixInteger" where
  "CostMatrix_at cm e =
     (case GetCondensedRowNum cm (edge_u e) of
        Inl x \<Rightarrow> Inl x
      | Inr r \<Rightarrow>
          (case GetCondensedColumnNum cm (edge_v e) of
             Inl x \<Rightarrow> Inl x
           | Inr c \<Rightarrow> Matrix_at (cost_matrix cm) r c))"

definition CostMatrix_at2 :: "CostMatrix \<Rightarrow> nat \<Rightarrow> nat \<Rightarrow> error + CostMatrixInteger" where
  "CostMatrix_at2 cm row_num column_num = CostMatrix_at cm (Edge row_num column_num)"

definition CostMatrix_assign :: "CostMatrix \<Rightarrow> Edge \<Rightarrow> CostMatrixInteger \<Rightarrow> error + CostMatrix" where
  "CostMatrix_assign cm e x =
     (case GetCondensedRowNum cm (edge_u e) of
        Inl y \<Rightarrow> Inl y
      | Inr r \<Rightarrow>
          (case GetCondensedColumnNum cm (edge_v e) of
             Inl y \<Rightarrow> Inl y
           | Inr c \<Rightarrow>
               (case Matrix_set (cost_matrix cm) r c x of
                  Inl y \<Rightarrow> Inl y
                | Inr m \<Rightarrow> Inr (cm\<lparr>cost_matrix := m\<rparr>))))"

text \<open>\<^verbatim>\<open>CostMatrix::GetRow\<close> and \<^verbatim>\<open>CostMatrix::GetColumn\<close>.\<close>

definition GetRow :: "CostMatrix \<Rightarrow> nat \<Rightarrow> error + CostVector" where
  "GetRow cm row_num =
     (case GetCondensedRowNum cm row_num of Inl x \<Rightarrow> Inl x | Inr r \<Rightarrow> Inr (CostRow r))"

definition GetColumn :: "CostMatrix \<Rightarrow> nat \<Rightarrow> error + CostVector" where
  "GetColumn cm column_num =
     (case GetCondensedColumnNum cm column_num of
        Inl x \<Rightarrow> Inl x | Inr c \<Rightarrow> Inr (CostColumn c))"

subsection \<open>Construction\<close>

text \<open>
  The loop over the include edges. An edge whose endpoint is not a vertex of the graph
  indexes the availability vectors out of range: \<open>OutOfRange\<close>.
\<close>

fun parse_included :: "Edge list \<Rightarrow> bool list \<Rightarrow> bool list \<Rightarrow> error + (bool list \<times> bool list)" where
  "parse_included [] row_available column_available = Inr (row_available, column_available)"
| "parse_included (e # es) row_available column_available =
     (if edge_u e < length row_available \<and> edge_v e < length column_available
      then parse_included es (row_available[edge_u e := False]) (column_available[edge_v e := False])
      else Inl OutOfRange)"

text \<open>The inner loop over \<open>j\<close> and the outer loop over \<open>i\<close> that fill the cells.\<close>

fun fill_columns :: "Graph \<Rightarrow> nat \<Rightarrow> nat list \<Rightarrow> CostMatrix \<Rightarrow> error + CostMatrix" where
  "fill_columns graph i [] cm = Inr cm"
| "fill_columns graph i (j # js) cm =
     (if \<not> IsColumnAvailable cm j then fill_columns graph i js cm
      else (case CostMatrix_assign cm (Edge i j)
                   (CostMatrixInteger_ctor (graph_cost graph i j) (Edge i j)) of
              Inl x \<Rightarrow> Inl x
            | Inr cm' \<Rightarrow> fill_columns graph i js cm'))"

fun fill_rows :: "Graph \<Rightarrow> nat list \<Rightarrow> CostMatrix \<Rightarrow> error + CostMatrix" where
  "fill_rows graph [] cm = Inr cm"
| "fill_rows graph (i # is) cm =
     (if \<not> IsRowAvailable cm i then fill_rows graph is cm
      else (case fill_columns graph i [0..<GetNumVertices graph] cm of
              Inl x \<Rightarrow> Inl x
            | Inr cm' \<Rightarrow> fill_rows graph is cm'))"

text \<open>The loop over the exclude edges.\<close>

fun mark_excluded :: "Edge list \<Rightarrow> CostMatrix \<Rightarrow> error + CostMatrix" where
  "mark_excluded [] cm = Inr cm"
| "mark_excluded (e # es) cm =
     (if \<not> IsRowAvailable cm (edge_u e) \<or> \<not> IsColumnAvailable cm (edge_v e)
      then mark_excluded es cm
      else (case CostMatrix_at cm e of
              Inl x \<Rightarrow> Inl x
            | Inr c \<Rightarrow>
                (case CostMatrix_assign cm e (SetInfinite c) of
                   Inl x \<Rightarrow> Inl x
                 | Inr cm' \<Rightarrow> mark_excluded es cm')))"

definition CostMatrix_ctor :: "Graph \<Rightarrow> Edge list \<Rightarrow> Edge list \<Rightarrow> error + CostMatrix" where
  "CostMatrix_ctor graph include exclude =
     (case parse_included include
             (replicate (GetNumVertices graph) True) (replicate (GetNumVertices graph) True) of
        Inl x \<Rightarrow> Inl x
      | Inr (row_available, column_available) \<Rightarrow>
          (let rm = MakeVectorMapping row_available;
               cmap = MakeVectorMapping column_available;
               cm = \<lparr>row_mapping = rm, column_mapping = cmap,
                     cost_matrix = SetSize (length rm) (length cmap)\<rparr>
           in (case fill_rows graph [0..<GetNumVertices graph] cm of
                 Inl x \<Rightarrow> Inl x
               | Inr cm' \<Rightarrow> mark_excluded exclude cm')))"

subsection \<open>Reduction\<close>

text \<open>
  \<^verbatim>\<open>std::min_element(first, last)\<close> over a view, on cell indices: the index of
  the first smallest cell, \<^verbatim>\<open>last\<close> on an empty range. The iterator starts at or
  below \<^verbatim>\<open>last\<close> and each increment below it adds one, so the loop test
  \<^verbatim>\<open>first != last\<close> is \<open>first_it < last_it\<close>.
\<close>

function min_element_loop :: "Matrix \<Rightarrow> CostVector \<Rightarrow> nat \<Rightarrow> nat \<Rightarrow> nat \<Rightarrow> error + nat" where
  "min_element_loop m vec first_it last_it smallest =
     (if first_it < last_it then
        (case vec_at m vec first_it of
           Inl x \<Rightarrow> Inl x
         | Inr a \<Rightarrow>
             (case vec_at m vec smallest of
                Inl x \<Rightarrow> Inl x
              | Inr b \<Rightarrow>
                  min_element_loop m vec (Suc first_it) last_it
                    (if cmi_less a b then first_it else smallest)))
      else Inr smallest)"
  by pat_completeness auto
termination
  by (relation "measure (\<lambda>(m, vec, first_it, last_it, smallest). last_it - first_it)") auto

definition min_element :: "Matrix \<Rightarrow> CostVector \<Rightarrow> nat \<Rightarrow> nat \<Rightarrow> error + nat" where
  "min_element m vec first_it last_it =
     (if first_it = last_it then Inr last_it else min_element_loop m vec (Suc first_it) last_it first_it)"

text \<open>\<^verbatim>\<open>std::for_each(first, last, [&min](CostMatrixInteger& elt) { elt -= min; })\<close>\<close>

function for_each_subtract ::
  "Matrix \<Rightarrow> CostVector \<Rightarrow> nat \<Rightarrow> nat \<Rightarrow> CostMatrixInteger \<Rightarrow> error + Matrix" where
  "for_each_subtract m vec first_it last_it mn =
     (if first_it < last_it then
        (case vec_at m vec first_it of
           Inl x \<Rightarrow> Inl x
         | Inr elt \<Rightarrow>
             (case vec_set m vec first_it (cmi_minus elt mn) of
                Inl x \<Rightarrow> Inl x
              | Inr m' \<Rightarrow> for_each_subtract m' vec (Suc first_it) last_it mn))
      else Inr m)"
  by pat_completeness auto
termination
  by (relation "measure (\<lambda>(m, vec, first_it, last_it, mn). last_it - first_it)") auto

text \<open>
  The body of the row loop: the minimum, its two assertions, the subtraction; the result
  is \<^verbatim>\<open>min()\<close> and the matrix after the subtraction.
\<close>

definition reduce_row :: "Matrix \<Rightarrow> nat \<Rightarrow> error + (int \<times> Matrix)" where
  "reduce_row m row_num =
     (let cost_row = CostRow row_num in
      case min_element m cost_row 0 (Size_vec m cost_row) of
        Inl x \<Rightarrow> Inl x
      | Inr min_it \<Rightarrow>
          if min_it = Size_vec m cost_row then Inl AssertionFailed
          else (case vec_at m cost_row min_it of
                  Inl x \<Rightarrow> Inl x
                | Inr mn \<Rightarrow>
                    if IsInfinite mn then Inl AssertionFailed
                    else (case for_each_subtract m cost_row 0 (Size_vec m cost_row) mn of
                            Inl x \<Rightarrow> Inl x
                          | Inr m' \<Rightarrow> Inr (cmi_value mn, m'))))"

text \<open>The body of the column loop: it has no assertion that the minimum exists.\<close>

definition reduce_column :: "Matrix \<Rightarrow> nat \<Rightarrow> error + (int \<times> Matrix)" where
  "reduce_column m column_num =
     (let cost_column = CostColumn column_num in
      case min_element m cost_column 0 (Size_vec m cost_column) of
        Inl x \<Rightarrow> Inl x
      | Inr min_it \<Rightarrow>
          (case vec_at m cost_column min_it of
             Inl x \<Rightarrow> Inl x
           | Inr mn \<Rightarrow>
               if IsInfinite mn then Inl AssertionFailed
               else (case for_each_subtract m cost_column 0 (Size_vec m cost_column) mn of
                       Inl x \<Rightarrow> Inl x
                     | Inr m' \<Rightarrow> Inr (cmi_value mn, m'))))"

text \<open>
  The accumulator \<^verbatim>\<open>int decremented\<close> is a 32-bit two's-complement integer:
  \<^verbatim>\<open>decremented += min()\<close> keeps the low 32 bits of the sum, read as a signed
  number.
\<close>

definition int32_wrap :: "int \<Rightarrow> int" where
  "int32_wrap x = (x + 2147483648) mod 4294967296 - 2147483648"

text \<open>
  The two loops of \<^verbatim>\<open>ReduceMatrix\<close>. \<^verbatim>\<open>CostMatrix::Size()\<close> bounds both and
  is declared in the absent header: its value is the parameter \<open>Size\<close>.
\<close>

function reduce_rows :: "nat \<Rightarrow> nat \<Rightarrow> Matrix \<Rightarrow> int \<Rightarrow> error + (int \<times> Matrix)" where
  "reduce_rows Size row_num m decremented =
     (if row_num < Size then
        (case reduce_row m row_num of
           Inl x \<Rightarrow> Inl x
         | Inr (mn, m') \<Rightarrow> reduce_rows Size (Suc row_num) m' (int32_wrap (decremented + mn)))
      else Inr (decremented, m))"
  by pat_completeness auto
termination
  by (relation "measure (\<lambda>(Size, row_num, m, decremented). Size - row_num)") auto

function reduce_columns :: "nat \<Rightarrow> nat \<Rightarrow> Matrix \<Rightarrow> int \<Rightarrow> error + (int \<times> Matrix)" where
  "reduce_columns Size column_num m decremented =
     (if column_num < Size then
        (case reduce_column m column_num of
           Inl x \<Rightarrow> Inl x
         | Inr (mn, m') \<Rightarrow> reduce_columns Size (Suc column_num) m' (int32_wrap (decremented + mn)))
      else Inr (decremented, m))"
  by pat_completeness auto
termination
  by (relation "measure (\<lambda>(Size, column_num, m, decremented). Size - column_num)") auto

definition ReduceMatrix :: "nat \<Rightarrow> CostMatrix \<Rightarrow> error + (int \<times> CostMatrix)" where
  "ReduceMatrix Size cm =
     (case reduce_rows Size 0 (cost_matrix cm) 0 of
        Inl x \<Rightarrow> Inl x
      | Inr (decremented, m) \<Rightarrow>
          (case reduce_columns Size 0 m decremented of
             Inl x \<Rightarrow> Inl x
           | Inr (decremented', m') \<Rightarrow> Inr (decremented', cm\<lparr>cost_matrix := m'\<rparr>)))"

section \<open>Notions used in the statements\<close>

text \<open>
  The vertices that remain available as rows (not the origin of an include edge) and as
  columns (not the destination of one), in increasing order, and the edges both of whose
  endpoints are available.
\<close>

definition available_rows :: "nat \<Rightarrow> Edge list \<Rightarrow> nat list" where
  "available_rows N include = filter (\<lambda>i. i \<notin> edge_u ` set include) [0..<N]"

definition available_columns :: "nat \<Rightarrow> Edge list \<Rightarrow> nat list" where
  "available_columns N include = filter (\<lambda>j. j \<notin> edge_v ` set include) [0..<N]"

definition both_available :: "nat \<Rightarrow> Edge list \<Rightarrow> Edge \<Rightarrow> bool" where
  "both_available N include e =
     (edge_u e < N \<and> edge_u e \<notin> edge_u ` set include \<and>
      edge_v e < N \<and> edge_v e \<notin> edge_v ` set include)"

text \<open>
  The condensed index of an available vertex: the number of available vertices below it,
  \<open>used\<close> being the set of the vertices that are not available.
\<close>

definition condensed_index :: "nat set \<Rightarrow> nat \<Rightarrow> nat" where
  "condensed_index used i = length (filter (\<lambda>k. k \<notin> used) [0..<i])"

text \<open>
  The invariant of a constructed matrix: the mappings point into the storage and are
  injective. \<open>same_shape\<close> relates two matrices that differ in their cells only.
\<close>

definition wf_CostMatrix :: "CostMatrix \<Rightarrow> bool" where
  "wf_CostMatrix cm =
     ((\<forall>i r. map_of (row_mapping cm) i = Some r \<longrightarrow> r < numRows (cost_matrix cm))
    \<and> (\<forall>j c. map_of (column_mapping cm) j = Some c \<longrightarrow> c < numColumns (cost_matrix cm))
    \<and> (\<forall>i i' r. map_of (row_mapping cm) i = Some r \<longrightarrow> map_of (row_mapping cm) i' = Some r \<longrightarrow> i = i')
    \<and> (\<forall>j j' c. map_of (column_mapping cm) j = Some c \<longrightarrow> map_of (column_mapping cm) j' = Some c \<longrightarrow> j = j'))"

definition same_shape :: "CostMatrix \<Rightarrow> CostMatrix \<Rightarrow> bool" where
  "same_shape cm cm' =
     (row_mapping cm' = row_mapping cm \<and> column_mapping cm' = column_mapping cm
      \<and> numRows (cost_matrix cm') = numRows (cost_matrix cm)
      \<and> numColumns (cost_matrix cm') = numColumns (cost_matrix cm))"

text \<open>
  The four-vertex graph of the spec's scenarios; its diagonal, which no tour uses, is
  given the cost \<open>0\<close>.
\<close>

definition scenario_costs :: "int list list" where
  "scenario_costs = [[0, 10, 15, 20], [10, 0, 35, 25], [15, 35, 0, 30], [20, 25, 30, 0]]"

definition scenario_graph :: Graph where
  "scenario_graph = \<lparr>GetNumVertices = 4, graph_cost = (\<lambda>i j. scenario_costs ! i ! j)\<rparr>"

subsection \<open>Reduction, in the spec's words\<close>

text \<open>
  The position and the cell of index \<open>k\<close> of a view, the views that lie inside the
  storage, and the views that hold a finite cell.
\<close>

definition vec_pos :: "CostVector \<Rightarrow> nat \<Rightarrow> nat \<times> nat" where
  "vec_pos vec k = (GetRow_vec vec k, GetColumn_vec vec k)"

definition vec_valid :: "Matrix \<Rightarrow> CostVector \<Rightarrow> bool" where
  "vec_valid m vec = (case vec of CostRow r \<Rightarrow> r < numRows m | CostColumn c \<Rightarrow> c < numColumns m)"

definition vec_cell :: "Matrix \<Rightarrow> CostVector \<Rightarrow> nat \<Rightarrow> CostMatrixInteger" where
  "vec_cell m vec k = entries m (vec_pos vec k)"

definition vec_has_finite :: "Matrix \<Rightarrow> CostVector \<Rightarrow> bool" where
  "vec_has_finite m vec = (\<exists>k < Size_vec m vec. \<not> cmi_infinite (vec_cell m vec k))"

text \<open>
  Subtracting an amount from a cell leaves an infinite cell as it is. The minimum of a
  view is the least value among its finite cells: an infinite cell counts as larger than
  any finite value.
\<close>

definition sub_cell :: "CostMatrixInteger \<Rightarrow> int \<Rightarrow> CostMatrixInteger" where
  "sub_cell c k = (if cmi_infinite c then c else c\<lparr>cmi_value := cmi_value c - k\<rparr>)"

definition vec_finite_values :: "Matrix \<Rightarrow> CostVector \<Rightarrow> int list" where
  "vec_finite_values m vec =
     map cmi_value (filter (\<lambda>c. \<not> cmi_infinite c) (map (vec_cell m vec) [0..<Size_vec m vec]))"

definition vec_minimum :: "Matrix \<Rightarrow> CostVector \<Rightarrow> int" where
  "vec_minimum m vec = Min (set (vec_finite_values m vec))"

definition row_minimum :: "Matrix \<Rightarrow> nat \<Rightarrow> int" where
  "row_minimum m r = vec_minimum m (CostRow r)"

definition column_minimum :: "Matrix \<Rightarrow> nat \<Rightarrow> int" where
  "column_minimum m c = vec_minimum m (CostColumn c)"

text \<open>
  The matrix after the amount \<open>k\<close> is subtracted from the cells \<open>a, \<dots>, b - 1\<close> of a
  view, and from all of them.
\<close>

definition subtract_range :: "Matrix \<Rightarrow> CostVector \<Rightarrow> nat \<Rightarrow> nat \<Rightarrow> int \<Rightarrow> Matrix" where
  "subtract_range m vec a b k =
     m\<lparr>entries := (\<lambda>p. if p \<in> vec_pos vec ` {a..<b}
                         then sub_cell (entries m p) k else entries m p)\<rparr>"

definition subtract_vec :: "Matrix \<Rightarrow> CostVector \<Rightarrow> int \<Rightarrow> Matrix" where
  "subtract_vec m vec k =
     m\<lparr>entries := (\<lambda>p. if p \<in> vec_pos vec ` {0..<Size_vec m vec}
                         then sub_cell (entries m p) k else entries m p)\<rparr>"

text \<open>
  The matrix after the first \<open>n\<close> rows (columns) have had their minimum subtracted;
  each row's minimum is subtracted from every cell of that row, then each column's
  minimum from every cell of that column.
\<close>

definition rows_done :: "Matrix \<Rightarrow> nat \<Rightarrow> Matrix" where
  "rows_done m n =
     m\<lparr>entries := (\<lambda>(r, c). if r < n \<and> c < numColumns m
                              then sub_cell (entries m (r, c)) (row_minimum m r)
                              else entries m (r, c))\<rparr>"

definition columns_done :: "Matrix \<Rightarrow> nat \<Rightarrow> Matrix" where
  "columns_done m n =
     m\<lparr>entries := (\<lambda>(r, c). if c < n \<and> r < numRows m
                              then sub_cell (entries m (r, c)) (column_minimum m c)
                              else entries m (r, c))\<rparr>"

definition subtract_row_minima :: "Matrix \<Rightarrow> Matrix" where
  "subtract_row_minima m = rows_done m (numRows m)"

definition subtract_column_minima :: "Matrix \<Rightarrow> Matrix" where
  "subtract_column_minima m = columns_done m (numColumns m)"

text \<open>
  The precondition of the reduction: every condensed row and every condensed column
  holds a finite cell. The total: the row minima, then the column minima of the
  row-reduced matrix.
\<close>

definition reducible :: "Matrix \<Rightarrow> bool" where
  "reducible m =
     ((\<forall>r < numRows m. vec_has_finite m (CostRow r))
      \<and> (\<forall>c < numColumns m. vec_has_finite m (CostColumn c)))"

definition reduction_total :: "Matrix \<Rightarrow> int" where
  "reduction_total m =
     (\<Sum>r = 0..<numRows m. row_minimum m r)
     + (\<Sum>c = 0..<numColumns m. column_minimum (subtract_row_minima m) c)"

text \<open>
  A reduced matrix: its finite cells are non-negative, and every row and every column
  holds a finite cell of value \<open>0\<close>.
\<close>

definition zero_cell :: "Matrix \<Rightarrow> nat \<times> nat \<Rightarrow> bool" where
  "zero_cell m p = (\<not> cmi_infinite (entries m p) \<and> cmi_value (entries m p) = 0)"

definition normalised :: "Matrix \<Rightarrow> bool" where
  "normalised m =
     ((\<forall>r < numRows m. \<forall>c < numColumns m.
          \<not> cmi_infinite (entries m (r, c)) \<longrightarrow> 0 \<le> cmi_value (entries m (r, c)))
      \<and> (\<forall>r < numRows m. \<exists>c < numColumns m. zero_cell m (r, c))
      \<and> (\<forall>c < numColumns m. \<exists>r < numRows m. zero_cell m (r, c)))"

text \<open>
  A matrix reduced in its first \<open>n\<close> rows and columns: the finite cells of these rows
  and columns are non-negative, and each of them holds a finite cell of value \<open>0\<close>.
\<close>

definition reduced_upto :: "nat \<Rightarrow> Matrix \<Rightarrow> bool" where
  "reduced_upto n m =
     ((\<forall>r < n. \<forall>c < numColumns m.
          \<not> cmi_infinite (entries m (r, c)) \<longrightarrow> 0 \<le> cmi_value (entries m (r, c)))
      \<and> (\<forall>c < n. \<forall>r < numRows m.
          \<not> cmi_infinite (entries m (r, c)) \<longrightarrow> 0 \<le> cmi_value (entries m (r, c)))
      \<and> (\<forall>r < n. \<exists>c < numColumns m. zero_cell m (r, c))
      \<and> (\<forall>c < n. \<exists>r < numRows m. zero_cell m (r, c)))"

text \<open>
  Two matrices with the same dimensions whose cells agree on being infinite and on
  their provenance; \<open>n\<close> successive calls of \<^verbatim>\<open>ReduceMatrix\<close>.
\<close>

definition same_infinite :: "Matrix \<Rightarrow> Matrix \<Rightarrow> bool" where
  "same_infinite m m' =
     (numRows m' = numRows m \<and> numColumns m' = numColumns m
      \<and> (\<forall>p. cmi_infinite (entries m' p) = cmi_infinite (entries m p))
      \<and> (\<forall>p. cmi_edge (entries m' p) = cmi_edge (entries m p)))"

fun ReduceMatrix_times :: "nat \<Rightarrow> nat \<Rightarrow> CostMatrix \<Rightarrow> error + CostMatrix" where
  "ReduceMatrix_times Size 0 cm = Inr cm"
| "ReduceMatrix_times Size (Suc n) cm =
     (case ReduceMatrix Size cm of
        Inl x \<Rightarrow> Inl x
      | Inr (decremented, cm') \<Rightarrow> ReduceMatrix_times Size n cm')"

text \<open>
  Examples: the matrix \<open>[[4, 9], [6, \<infinity>]]\<close>, the same matrix with every cell
  infinite, and a two-vertex graph.
\<close>

definition example_matrix :: Matrix where
  "example_matrix =
     \<lparr>numRows = 2, numColumns = 2,
      entries = (\<lambda>(r, c). \<lparr>cmi_value = [[4, 9], [6, 0]] ! r ! c,
                              cmi_infinite = (r = 1 \<and> c = 1),
                              cmi_edge = Edge r c\<rparr>)\<rparr>"

definition example_cm :: CostMatrix where
  "example_cm =
     \<lparr>row_mapping = [(0, 0), (1, 1)], column_mapping = [(0, 0), (1, 1)],
      cost_matrix = example_matrix\<rparr>"

definition blocked_cm :: CostMatrix where
  "blocked_cm =
     \<lparr>row_mapping = [(0, 0), (1, 1)], column_mapping = [(0, 0), (1, 1)],
      cost_matrix = example_matrix\<lparr>entries := (\<lambda>p. SetInfinite (entries example_matrix p))\<rparr>\<rparr>"

definition small_graph :: Graph where
  "small_graph = \<lparr>GetNumVertices = 2, graph_cost = (\<lambda>i j. [[0, 3], [5, 0]] ! i ! j)\<rparr>"

text \<open>
  A three-vertex graph, on which two include edges with the same destination (or the same
  origin) leave a condensed matrix that is not square, and a two-vertex graph all of
  whose costs are \<open>2\<^sup>3\<^sup>0\<close>.
\<close>

definition wide_graph :: Graph where
  "wide_graph =
     \<lparr>GetNumVertices = 3, graph_cost = (\<lambda>i j. [[0, 10, 15], [6, 0, 8], [15, 35, 0]] ! i ! j)\<rparr>"

definition big_graph :: Graph where
  "big_graph = \<lparr>GetNumVertices = 2, graph_cost = (\<lambda>i j. 1073741824)\<rparr>"

section \<open>Iterators\<close>

lemma vec_incr_end: "vec_incr m (vec_end m vec) = vec_end m vec"
  by (simp add: vec_incr_def vec_end_def)

lemma vec_incr_pow_end: "(vec_incr m ^^ n) (vec_end m vec) = vec_end m vec"
  by (induction n) (simp_all add: vec_incr_end)

lemma MoveToNextCell_end: "MoveToNextCell m (mat_end m) = Inr (mat_end m)"
  by (simp add: MoveToNextCell_def mat_end_def)

lemma mat_advance_end: "mat_advance m n (mat_end m) = Inr (mat_end m)"
  by (induction n) (simp_all add: MoveToNextCell_end)

text \<open>
  Claim C10. Incrementing an iterator that is at its end position changes nothing. The
  prefix and the postfix increment of a view iterator advance only while the index is
  strictly below the size of the view, so at the end sentinel both leave the iterator
  where it is (the postfix one also returns the end position); \<open>MoveToNextCell\<close> returns
  at once at \<open>(numRows, 0)\<close>; and any number of increments from the end stays at the
  end.
\<close>

theorem increment_at_end_is_noop:
  "vec_incr m (vec_end m vec) = vec_end m vec
   \<and> vec_post_incr m (vec_end m vec) = (vec_end m vec, vec_end m vec)
   \<and> traversing_cell_index (vec_incr m it) =
       (if traversing_cell_index it < Size_vec m (cost_vector_ptr it)
        then traversing_cell_index it + 1 else traversing_cell_index it)
   \<and> snd (vec_post_incr m it) = vec_incr m it
   \<and> MoveToNextCell m (mat_end m) = Inr (mat_end m)
   \<and> (vec_incr m ^^ n) (vec_end m vec) = vec_end m vec
   \<and> mat_advance m n (mat_end m) = Inr (mat_end m)"
  by (simp add: vec_incr_end vec_incr_pow_end MoveToNextCell_end mat_advance_end)
     (simp add: vec_post_incr_def vec_end_def vec_incr_def)

lemma vec_incr_pow_begin:
  "(vec_incr m ^^ k) (vec_begin vec) =
     \<lparr>cost_vector_ptr = vec, traversing_cell_index = min k (Size_vec m vec)\<rparr>"
  by (induction k) (auto simp: vec_begin_def vec_incr_def min_def)

lemma mat_advance_add:
  "mat_advance m (a + b) it =
     (case mat_advance m a it of Inl e \<Rightarrow> Inl e | Inr it' \<Rightarrow> mat_advance m b it')"
  by (induction a arbitrary: it) (auto split: sum.splits)

lemma MoveToNextCell_pos:
  assumes "0 < numColumns m" "k < numRows m * numColumns m"
  shows "MoveToNextCell m \<lparr>it_row_num = k div numColumns m, it_column_num = k mod numColumns m\<rparr>
         = Inr \<lparr>it_row_num = Suc k div numColumns m, it_column_num = Suc k mod numColumns m\<rparr>"
proof -
  let ?C = "numColumns m"
  have lt: "k div ?C < numRows m"
    using assms by (simp add: less_mult_imp_div_less)
  have a: "(k mod ?C + 1) mod ?C = Suc k mod ?C"
    by (simp add: mod_Suc_eq)
  have b: "Suc k div ?C = (if Suc k mod ?C = 0 then k div ?C + 1 else k div ?C)"
    using assms(1) by (simp add: div_Suc mod_Suc)
  show ?thesis
    using lt a b assms(1) by (simp add: MoveToNextCell_def Let_def)
qed

lemma mat_advance_pos:
  "0 < numColumns m \<Longrightarrow> k \<le> numRows m * numColumns m \<Longrightarrow>
   mat_advance m k mat_begin =
     Inr \<lparr>it_row_num = k div numColumns m, it_column_num = k mod numColumns m\<rparr>"
proof (induction k)
  case 0
  then show ?case by (simp add: mat_begin_def)
next
  case (Suc k)
  have "mat_advance m (k + 1) mat_begin =
     (case mat_advance m k mat_begin of Inl e \<Rightarrow> Inl e | Inr it' \<Rightarrow> mat_advance m 1 it')"
    by (rule mat_advance_add)
  then show ?case
    using Suc MoveToNextCell_pos[of m k] by simp
qed

text \<open>
  A view iterator started at \<open>begin\<close> differs from the end sentinel after fewer than
  \<open>size\<close> increments and equals it after exactly \<open>size\<close>. On a matrix that has a
  column or has no row, the whole-matrix iterator started at \<open>(0, 0)\<close> is, after
  \<open>n \<le> rows \<times> columns\<close> increments, at row \<open>n div columns\<close> and column
  \<open>n mod columns\<close> (row-major order, the column varying fastest); it differs from the
  end state \<open>(numRows, 0)\<close> after fewer than \<open>rows \<times> columns\<close> increments and reaches it
  after exactly that many; and when such a matrix has no cell, \<open>begin\<close> is the end state.
\<close>

lemma iterators_reach_end_after_all_cells:
  assumes "0 < numColumns m \<or> numRows m = 0"
  shows "(k < Size_vec m vec \<longrightarrow> (vec_incr m ^^ k) (vec_begin vec) \<noteq> vec_end m vec)
     \<and> (vec_incr m ^^ Size_vec m vec) (vec_begin vec) = vec_end m vec
     \<and> (n \<le> numRows m * numColumns m \<longrightarrow>
          mat_advance m n mat_begin =
            Inr \<lparr>it_row_num = n div numColumns m, it_column_num = n mod numColumns m\<rparr>)
     \<and> (n < numRows m * numColumns m \<longrightarrow> mat_advance m n mat_begin \<noteq> Inr (mat_end m))
     \<and> mat_advance m (numRows m * numColumns m) mat_begin = Inr (mat_end m)
     \<and> (numRows m * numColumns m = 0 \<longrightarrow> mat_begin = mat_end m)"
proof -
  have v1: "k < Size_vec m vec \<longrightarrow> (vec_incr m ^^ k) (vec_begin vec) \<noteq> vec_end m vec"
    by (simp add: vec_incr_pow_begin vec_end_def)
  have v2: "(vec_incr m ^^ Size_vec m vec) (vec_begin vec) = vec_end m vec"
    by (simp add: vec_incr_pow_begin vec_end_def)
  have pos: "j \<le> numRows m * numColumns m \<Longrightarrow>
          mat_advance m j mat_begin =
            Inr \<lparr>it_row_num = j div numColumns m, it_column_num = j mod numColumns m\<rparr>" for j
  proof (cases "0 < numColumns m")
    case True
    then show "j \<le> numRows m * numColumns m \<Longrightarrow> ?thesis" by (rule mat_advance_pos)
  next
    case False
    then show "j \<le> numRows m * numColumns m \<Longrightarrow> ?thesis"
      using assms by (simp add: mat_begin_def)
  qed
  have m1: "n \<le> numRows m * numColumns m \<longrightarrow>
          mat_advance m n mat_begin =
            Inr \<lparr>it_row_num = n div numColumns m, it_column_num = n mod numColumns m\<rparr>"
    using pos by blast
  have m2: "n < numRows m * numColumns m \<longrightarrow> mat_advance m n mat_begin \<noteq> Inr (mat_end m)"
  proof
    assume lt: "n < numRows m * numColumns m"
    then have "n div numColumns m < numRows m"
      by (cases "numColumns m = 0") (simp_all add: less_mult_imp_div_less)
    then show "mat_advance m n mat_begin \<noteq> Inr (mat_end m)"
      using pos[of n] lt by (simp add: mat_end_def)
  qed
  have m3: "mat_advance m (numRows m * numColumns m) mat_begin = Inr (mat_end m)"
    using pos[of "numRows m * numColumns m"] assms by (auto simp: mat_end_def)
  have m4: "numRows m * numColumns m = 0 \<longrightarrow> mat_begin = mat_end m"
    using assms by (auto simp: mat_begin_def mat_end_def)
  show ?thesis using v1 v2 m1 m2 m3 m4 by blast
qed

lemma iterators_reach_end_after_all_cells_example:
  "(vec_incr (SetSize 2 3) ^^ 2) (vec_begin (CostRow 1)) \<noteq> vec_end (SetSize 2 3) (CostRow 1)
   \<and> (vec_incr (SetSize 2 3) ^^ 3) (vec_begin (CostRow 1)) = vec_end (SetSize 2 3) (CostRow 1)
   \<and> mat_advance (SetSize 2 3) 4 mat_begin = Inr \<lparr>it_row_num = 1, it_column_num = 1\<rparr>
   \<and> mat_advance (SetSize 2 3) 4 mat_begin \<noteq> Inr (mat_end (SetSize 2 3))
   \<and> mat_advance (SetSize 2 3) 6 mat_begin = Inr (mat_end (SetSize 2 3))"
  using iterators_reach_end_after_all_cells[of "SetSize 2 3" 2 "CostRow 1" 4]
  by (simp add: SetSize_def mat_end_def)


section \<open>Construction\<close>

subsection \<open>The index mappings\<close>

lemma update_fresh: "k \<notin> fst ` set al \<Longrightarrow> AList.update k x al = al @ [(k, x)]"
  by (induction al) auto

lemma MakeVectorMapping_loop_eq:
  "\<forall>k \<in> fst ` set mapping. k < cell_num \<Longrightarrow>
   MakeVectorMapping_loop available cell_num cur mapping =
     mapping @ map (\<lambda>(c, k). (k, c))
       (enumerate cur (filter (\<lambda>j. available ! j) [cell_num..<length available]))"
proof (induction available cell_num cur mapping rule: MakeVectorMapping_loop.induct)
  case (1 available cell_num cur mapping)
  show ?case
  proof (cases "cell_num < length available")
    case False
    then show ?thesis by simp
  next
    case lt: True
    then have upt: "[cell_num..<length available] = cell_num # [Suc cell_num..<length available]"
      by (simp add: upt_conv_Cons)
    show ?thesis
    proof (cases "available ! cell_num")
      case False
      have "\<forall>k \<in> fst ` set mapping. k < Suc cell_num"
        using "1.prems" by auto
      from "1.IH"(1)[OF lt _ this] False lt upt show ?thesis
        by (simp del: MakeVectorMapping_loop.simps add: MakeVectorMapping_loop.simps[of available cell_num])
    next
      case True
      have fresh: "cell_num \<notin> fst ` set mapping"
        using "1.prems" by auto
      have "\<forall>k \<in> fst ` set (AList.update cell_num cur mapping). k < Suc cell_num"
        using "1.prems" by (auto simp: update_fresh[OF fresh])
      from "1.IH"(2)[OF lt _ this] True lt upt show ?thesis
        by (simp del: MakeVectorMapping_loop.simps
              add: MakeVectorMapping_loop.simps[of available cell_num] update_fresh[OF fresh])
    qed
  qed
qed

lemma MakeVectorMapping_eq:
  "MakeVectorMapping available =
     zip (filter (\<lambda>j. available ! j) [0..<length available])
         [0..<length (filter (\<lambda>j. available ! j) [0..<length available])]"
proof -
  let ?ks = "filter (\<lambda>j. available ! j) [0..<length available]"
  have "MakeVectorMapping available = map (\<lambda>(c, k). (k, c)) (enumerate 0 ?ks)"
    by (simp add: MakeVectorMapping_def MakeVectorMapping_loop_eq del: MakeVectorMapping_loop.simps)
  also have "\<dots> = map (\<lambda>(c, k). (k, c)) (zip [0..<length ?ks] ?ks)"
    by (simp add: enumerate_eq_zip)
  also have "\<dots> = zip ?ks [0..<length ?ks]"
    by (rule zip_commute[symmetric])
  finally show ?thesis .
qed

lemma parse_included_ok:
  "\<forall>e \<in> set es. edge_u e < length ra \<and> edge_v e < length ca \<Longrightarrow>
   \<exists>ra' ca'. parse_included es ra ca = Inr (ra', ca')
      \<and> length ra' = length ra \<and> length ca' = length ca
      \<and> (\<forall>i < length ra. ra' ! i = (ra ! i \<and> i \<notin> edge_u ` set es))
      \<and> (\<forall>j < length ca. ca' ! j = (ca ! j \<and> j \<notin> edge_v ` set es))"
proof (induction es arbitrary: ra ca)
  case Nil
  then show ?case by simp
next
  case (Cons e es)
  let ?ra = "ra[edge_u e := False]" and ?ca = "ca[edge_v e := False]"
  have "\<forall>x \<in> set es. edge_u x < length ?ra \<and> edge_v x < length ?ca"
    using Cons.prems by simp
  from Cons.IH[OF this] obtain ra' ca' where
    r: "parse_included es ?ra ?ca = Inr (ra', ca')"
    and l: "length ra' = length ra" "length ca' = length ca"
    and a: "\<forall>i < length ra. ra' ! i = (?ra ! i \<and> i \<notin> edge_u ` set es)"
    and b: "\<forall>j < length ca. ca' ! j = (?ca ! j \<and> j \<notin> edge_v ` set es)"
    by auto
  have "parse_included (e # es) ra ca = Inr (ra', ca')"
    using Cons.prems r by simp
  moreover have "ra' ! i = (ra ! i \<and> i \<notin> edge_u ` set (e # es))" if "i < length ra" for i
    using a that by (cases "i = edge_u e") (simp_all add: nth_list_update)
  moreover have "ca' ! j = (ca ! j \<and> j \<notin> edge_v ` set (e # es))" if "j < length ca" for j
    using b that by (cases "j = edge_v e") (simp_all add: nth_list_update)
  ultimately show ?case using l by blast
qed

subsection \<open>Cell access on a well-formed matrix\<close>

lemma same_shape_refl: "same_shape cm cm"
  by (simp add: same_shape_def)

lemma same_shape_trans: "same_shape a b \<Longrightarrow> same_shape b c \<Longrightarrow> same_shape a c"
  by (simp add: same_shape_def)

lemma same_shape_wf: "same_shape cm cm' \<Longrightarrow> wf_CostMatrix cm \<Longrightarrow> wf_CostMatrix cm'"
  by (simp add: same_shape_def wf_CostMatrix_def)

lemma same_shape_available:
  "same_shape cm cm' \<Longrightarrow> IsRowAvailable cm' i = IsRowAvailable cm i"
  "same_shape cm cm' \<Longrightarrow> IsColumnAvailable cm' j = IsColumnAvailable cm j"
  by (simp_all add: same_shape_def IsRowAvailable_def IsColumnAvailable_def)

lemma CostMatrix_at_unavailable:
  "\<not> IsRowAvailable cm (edge_u e) \<or> \<not> IsColumnAvailable cm (edge_v e) \<Longrightarrow>
   CostMatrix_at cm e = Inl NotAvailableError"
  by (auto simp: CostMatrix_at_def GetCondensedRowNum_def GetCondensedColumnNum_def
      IsRowAvailable_def split: sum.splits option.splits)

lemma CostMatrix_at_available:
  assumes "wf_CostMatrix cm" "map_of (row_mapping cm) (edge_u e) = Some r"
    "map_of (column_mapping cm) (edge_v e) = Some c"
  shows "CostMatrix_at cm e = Inr (entries (cost_matrix cm) (r, c))"
  using assms
  by (simp add: CostMatrix_at_def GetCondensedRowNum_def GetCondensedColumnNum_def
      IsRowAvailable_def IsColumnAvailable_def Matrix_at_def wf_CostMatrix_def)

lemma CostMatrix_assign_available:
  assumes "wf_CostMatrix cm" "map_of (row_mapping cm) (edge_u e) = Some r"
    "map_of (column_mapping cm) (edge_v e) = Some c"
  shows "CostMatrix_assign cm e x =
     Inr (cm\<lparr>cost_matrix := (cost_matrix cm)\<lparr>entries := (entries (cost_matrix cm))((r, c) := x)\<rparr>\<rparr>)"
  using assms
  by (simp add: CostMatrix_assign_def GetCondensedRowNum_def GetCondensedColumnNum_def
      IsRowAvailable_def IsColumnAvailable_def Matrix_set_def wf_CostMatrix_def)

lemma CostMatrix_assign_frame:
  assumes wf: "wf_CostMatrix cm"
    and ar: "IsRowAvailable cm (edge_u e)" and ac: "IsColumnAvailable cm (edge_v e)"
  shows "\<exists>cm'. CostMatrix_assign cm e x = Inr cm' \<and> same_shape cm cm'
     \<and> (\<forall>e'. CostMatrix_at cm' e' = (if e' = e then Inr x else CostMatrix_at cm e'))"
proof -
  from ar ac obtain r c where r: "map_of (row_mapping cm) (edge_u e) = Some r"
    and c: "map_of (column_mapping cm) (edge_v e) = Some c"
    by (auto simp: IsRowAvailable_def IsColumnAvailable_def)
  let ?cm' = "cm\<lparr>cost_matrix := (cost_matrix cm)\<lparr>entries := (entries (cost_matrix cm))((r, c) := x)\<rparr>\<rparr>"
  have asg: "CostMatrix_assign cm e x = Inr ?cm'"
    by (rule CostMatrix_assign_available[OF wf r c])
  have sh: "same_shape cm ?cm'"
    by (simp add: same_shape_def)
  have wf': "wf_CostMatrix ?cm'"
    by (rule same_shape_wf[OF sh wf])
  have "CostMatrix_at ?cm' e' = (if e' = e then Inr x else CostMatrix_at cm e')" for e'
  proof (cases "IsRowAvailable cm (edge_u e') \<and> IsColumnAvailable cm (edge_v e')")
    case False
    then have "\<not> IsRowAvailable ?cm' (edge_u e') \<or> \<not> IsColumnAvailable ?cm' (edge_v e')"
      by (simp add: IsRowAvailable_def IsColumnAvailable_def)
    then have "CostMatrix_at ?cm' e' = Inl NotAvailableError"
      by (rule CostMatrix_at_unavailable)
    moreover have "CostMatrix_at cm e' = Inl NotAvailableError"
      using False by (intro CostMatrix_at_unavailable) simp
    moreover have "e' \<noteq> e" using False ar ac by auto
    ultimately show ?thesis by simp
  next
    case True
    then obtain r' c' where r': "map_of (row_mapping cm) (edge_u e') = Some r'"
      and c': "map_of (column_mapping cm) (edge_v e') = Some c'"
      by (auto simp: IsRowAvailable_def IsColumnAvailable_def)
    have a1: "CostMatrix_at ?cm' e' = Inr (entries (cost_matrix ?cm') (r', c'))"
      using r' c' by (intro CostMatrix_at_available[OF wf']) simp_all
    have a2: "CostMatrix_at cm e' = Inr (entries (cost_matrix cm) (r', c'))"
      by (rule CostMatrix_at_available[OF wf r' c'])
    have "(r', c') = (r, c) \<longleftrightarrow> e' = e"
    proof
      assume "(r', c') = (r, c)"
      then have "edge_u e' = edge_u e" "edge_v e' = edge_v e"
        using wf r c r' c' unfolding wf_CostMatrix_def by blast+
      then show "e' = e" by (simp add: Edge.expand)
    next
      assume "e' = e"
      then show "(r', c') = (r, c)" using r c r' c' by simp
    qed
    then show ?thesis using a1 a2 by auto
  qed
  then show ?thesis using asg sh by blast
qed

subsection \<open>The loops of the constructor\<close>

lemma fill_columns_frame:
  assumes "wf_CostMatrix cm" "IsRowAvailable cm i"
  shows "\<exists>cm'. fill_columns graph i js cm = Inr cm' \<and> same_shape cm cm'
     \<and> (\<forall>e'. CostMatrix_at cm' e' =
          (if edge_u e' = i \<and> edge_v e' \<in> set js \<and> IsColumnAvailable cm (edge_v e')
           then Inr (CostMatrixInteger_ctor (graph_cost graph i (edge_v e')) e')
           else CostMatrix_at cm e'))"
  using assms
proof (induction js arbitrary: cm)
  case Nil
  then show ?case by (simp add: same_shape_refl)
next
  case (Cons j js)
  show ?case
  proof (cases "IsColumnAvailable cm j")
    case False
    from Cons.IH[OF Cons.prems] obtain cm' where
      f: "fill_columns graph i js cm = Inr cm'" and sh: "same_shape cm cm'"
      and at: "\<forall>e'. CostMatrix_at cm' e' =
          (if edge_u e' = i \<and> edge_v e' \<in> set js \<and> IsColumnAvailable cm (edge_v e')
           then Inr (CostMatrixInteger_ctor (graph_cost graph i (edge_v e')) e')
           else CostMatrix_at cm e')"
      by blast
    have "fill_columns graph i (j # js) cm = Inr cm'"
      using False f by simp
    moreover have "CostMatrix_at cm' e' =
          (if edge_u e' = i \<and> edge_v e' \<in> set (j # js) \<and> IsColumnAvailable cm (edge_v e')
           then Inr (CostMatrixInteger_ctor (graph_cost graph i (edge_v e')) e')
           else CostMatrix_at cm e')" for e'
      using at False by auto
    ultimately show ?thesis using sh by blast
  next
    case True
    let ?x = "CostMatrixInteger_ctor (graph_cost graph i j) (Edge i j)"
    from CostMatrix_assign_frame[of cm "Edge i j" ?x] Cons.prems True
    obtain cm1 where a: "CostMatrix_assign cm (Edge i j) ?x = Inr cm1"
      and sh1: "same_shape cm cm1"
      and at1: "\<forall>e'. CostMatrix_at cm1 e' = (if e' = Edge i j then Inr ?x else CostMatrix_at cm e')"
      by auto
    have wf1: "wf_CostMatrix cm1" by (rule same_shape_wf[OF sh1 Cons.prems(1)])
    have r1: "IsRowAvailable cm1 i" using Cons.prems(2) same_shape_available(1)[OF sh1] by simp
    from Cons.IH[OF wf1 r1] obtain cm' where
      f: "fill_columns graph i js cm1 = Inr cm'" and sh: "same_shape cm1 cm'"
      and at: "\<forall>e'. CostMatrix_at cm' e' =
          (if edge_u e' = i \<and> edge_v e' \<in> set js \<and> IsColumnAvailable cm1 (edge_v e')
           then Inr (CostMatrixInteger_ctor (graph_cost graph i (edge_v e')) e')
           else CostMatrix_at cm1 e')"
      by blast
    have "fill_columns graph i (j # js) cm = Inr cm'"
      using True a f by simp
    moreover have "same_shape cm cm'" by (rule same_shape_trans[OF sh1 sh])
    moreover have "CostMatrix_at cm' e' =
          (if edge_u e' = i \<and> edge_v e' \<in> set (j # js) \<and> IsColumnAvailable cm (edge_v e')
           then Inr (CostMatrixInteger_ctor (graph_cost graph i (edge_v e')) e')
           else CostMatrix_at cm e')" for e'
    proof (cases "e' = Edge i j")
      case e: True
      then show ?thesis using at at1 True same_shape_available(2)[OF sh1] by auto
    next
      case ne: False
      then have "\<not> (edge_u e' = i \<and> edge_v e' = j)" by (cases e') auto
      then show ?thesis using at at1 ne same_shape_available(2)[OF sh1] by auto
    qed
    ultimately show ?thesis by blast
  qed
qed

lemma fill_rows_frame:
  assumes "wf_CostMatrix cm"
  shows "\<exists>cm'. fill_rows graph is cm = Inr cm' \<and> same_shape cm cm'
     \<and> (\<forall>e'. CostMatrix_at cm' e' =
          (if edge_u e' \<in> set is \<and> IsRowAvailable cm (edge_u e')
              \<and> edge_v e' < GetNumVertices graph \<and> IsColumnAvailable cm (edge_v e')
           then Inr (CostMatrixInteger_ctor (graph_cost graph (edge_u e') (edge_v e')) e')
           else CostMatrix_at cm e'))"
  using assms
proof (induction "is" arbitrary: cm)
  case Nil
  then show ?case by (simp add: same_shape_refl)
next
  case (Cons i "is")
  show ?case
  proof (cases "IsRowAvailable cm i")
    case False
    from Cons.IH[OF Cons.prems] obtain cm' where
      f: "fill_rows graph is cm = Inr cm'" and sh: "same_shape cm cm'"
      and at: "\<forall>e'. CostMatrix_at cm' e' =
          (if edge_u e' \<in> set is \<and> IsRowAvailable cm (edge_u e')
              \<and> edge_v e' < GetNumVertices graph \<and> IsColumnAvailable cm (edge_v e')
           then Inr (CostMatrixInteger_ctor (graph_cost graph (edge_u e') (edge_v e')) e')
           else CostMatrix_at cm e')"
      by blast
    have "fill_rows graph (i # is) cm = Inr cm'"
      using False f by simp
    moreover have "CostMatrix_at cm' e' =
          (if edge_u e' \<in> set (i # is) \<and> IsRowAvailable cm (edge_u e')
              \<and> edge_v e' < GetNumVertices graph \<and> IsColumnAvailable cm (edge_v e')
           then Inr (CostMatrixInteger_ctor (graph_cost graph (edge_u e') (edge_v e')) e')
           else CostMatrix_at cm e')" for e'
      using at False by auto
    ultimately show ?thesis using sh by blast
  next
    case True
    from fill_columns_frame[OF Cons.prems True, of graph "[0..<GetNumVertices graph]"]
    obtain cm1 where a: "fill_columns graph i [0..<GetNumVertices graph] cm = Inr cm1"
      and sh1: "same_shape cm cm1"
      and at1: "\<forall>e'. CostMatrix_at cm1 e' =
          (if edge_u e' = i \<and> edge_v e' \<in> set [0..<GetNumVertices graph]
              \<and> IsColumnAvailable cm (edge_v e')
           then Inr (CostMatrixInteger_ctor (graph_cost graph i (edge_v e')) e')
           else CostMatrix_at cm e')"
      by blast
    have wf1: "wf_CostMatrix cm1" by (rule same_shape_wf[OF sh1 Cons.prems])
    from Cons.IH[OF wf1] obtain cm' where
      f: "fill_rows graph is cm1 = Inr cm'" and sh: "same_shape cm1 cm'"
      and at: "\<forall>e'. CostMatrix_at cm' e' =
          (if edge_u e' \<in> set is \<and> IsRowAvailable cm1 (edge_u e')
              \<and> edge_v e' < GetNumVertices graph \<and> IsColumnAvailable cm1 (edge_v e')
           then Inr (CostMatrixInteger_ctor (graph_cost graph (edge_u e') (edge_v e')) e')
           else CostMatrix_at cm1 e')"
      by blast
    have "fill_rows graph (i # is) cm = Inr cm'"
      using True a f by simp
    moreover have "same_shape cm cm'" by (rule same_shape_trans[OF sh1 sh])
    moreover have "CostMatrix_at cm' e' =
          (if edge_u e' \<in> set (i # is) \<and> IsRowAvailable cm (edge_u e')
              \<and> edge_v e' < GetNumVertices graph \<and> IsColumnAvailable cm (edge_v e')
           then Inr (CostMatrixInteger_ctor (graph_cost graph (edge_u e') (edge_v e')) e')
           else CostMatrix_at cm e')" for e'
      using at at1 True same_shape_available[OF sh1] by auto
    ultimately show ?thesis by blast
  qed
qed

lemma SetInfinite_idem: "SetInfinite (SetInfinite c) = SetInfinite c"
  by (simp add: SetInfinite_def)

lemma mark_excluded_frame:
  assumes "wf_CostMatrix cm"
    and "\<forall>e. IsRowAvailable cm (edge_u e) \<and> IsColumnAvailable cm (edge_v e) \<longrightarrow>
           (\<exists>c. CostMatrix_at cm e = Inr c)"
  shows "\<exists>cm'. mark_excluded es cm = Inr cm' \<and> same_shape cm cm'
     \<and> (\<forall>e'. CostMatrix_at cm' e' =
          (if e' \<in> set es \<and> IsRowAvailable cm (edge_u e') \<and> IsColumnAvailable cm (edge_v e')
           then map_sum id SetInfinite (CostMatrix_at cm e')
           else CostMatrix_at cm e'))"
  using assms
proof (induction es arbitrary: cm)
  case Nil
  then show ?case by (simp add: same_shape_refl)
next
  case (Cons e es)
  show ?case
  proof (cases "IsRowAvailable cm (edge_u e) \<and> IsColumnAvailable cm (edge_v e)")
    case False
    from Cons.IH[OF Cons.prems] obtain cm' where
      f: "mark_excluded es cm = Inr cm'" and sh: "same_shape cm cm'"
      and at: "\<forall>e'. CostMatrix_at cm' e' =
          (if e' \<in> set es \<and> IsRowAvailable cm (edge_u e') \<and> IsColumnAvailable cm (edge_v e')
           then map_sum id SetInfinite (CostMatrix_at cm e')
           else CostMatrix_at cm e')"
      by blast
    have "mark_excluded (e # es) cm = Inr cm'"
      using False f by auto
    moreover have "CostMatrix_at cm' e' =
          (if e' \<in> set (e # es) \<and> IsRowAvailable cm (edge_u e') \<and> IsColumnAvailable cm (edge_v e')
           then map_sum id SetInfinite (CostMatrix_at cm e')
           else CostMatrix_at cm e')" for e'
      using at False by auto
    ultimately show ?thesis using sh by blast
  next
    case True
    then obtain c where c: "CostMatrix_at cm e = Inr c"
      using Cons.prems(2) by blast
    from CostMatrix_assign_frame[of cm e "SetInfinite c"] Cons.prems(1) True
    obtain cm1 where a: "CostMatrix_assign cm e (SetInfinite c) = Inr cm1"
      and sh1: "same_shape cm cm1"
      and at1: "\<forall>e'. CostMatrix_at cm1 e' =
                  (if e' = e then Inr (SetInfinite c) else CostMatrix_at cm e')"
      by auto
    have wf1: "wf_CostMatrix cm1" by (rule same_shape_wf[OF sh1 Cons.prems(1)])
    have tot1: "\<forall>e. IsRowAvailable cm1 (edge_u e) \<and> IsColumnAvailable cm1 (edge_v e) \<longrightarrow>
           (\<exists>c. CostMatrix_at cm1 e = Inr c)"
      using Cons.prems(2) at1 same_shape_available[OF sh1] by auto
    from Cons.IH[OF wf1 tot1] obtain cm' where
      f: "mark_excluded es cm1 = Inr cm'" and sh: "same_shape cm1 cm'"
      and at: "\<forall>e'. CostMatrix_at cm' e' =
          (if e' \<in> set es \<and> IsRowAvailable cm1 (edge_u e') \<and> IsColumnAvailable cm1 (edge_v e')
           then map_sum id SetInfinite (CostMatrix_at cm1 e')
           else CostMatrix_at cm1 e')"
      by blast
    have "mark_excluded (e # es) cm = Inr cm'"
      using True c a f by simp
    moreover have "same_shape cm cm'" by (rule same_shape_trans[OF sh1 sh])
    moreover have "CostMatrix_at cm' e' =
          (if e' \<in> set (e # es) \<and> IsRowAvailable cm (edge_u e') \<and> IsColumnAvailable cm (edge_v e')
           then map_sum id SetInfinite (CostMatrix_at cm e')
           else CostMatrix_at cm e')" for e'
      using at at1 True c same_shape_available[OF sh1] by (auto simp: SetInfinite_idem)
    ultimately show ?thesis by blast
  qed
qed

subsection \<open>The constructed matrix\<close>

lemma map_of_zip_upt:
  assumes "distinct ks"
  shows "(map_of (zip ks [0..<length ks]) k = Some r) = (r < length ks \<and> ks ! r = k)"
proof
  assume "map_of (zip ks [0..<length ks]) k = Some r"
  then have "(k, r) \<in> set (zip ks [0..<length ks])" by (rule map_of_SomeD)
  then show "r < length ks \<and> ks ! r = k"
    by (auto simp: in_set_zip)
next
  assume "r < length ks \<and> ks ! r = k"
  then show "map_of (zip ks [0..<length ks]) k = Some r"
    using map_of_zip_nth[of ks "[0..<length ks]" r] assms by auto
qed

lemma map_of_zip_upt_None:
  "(map_of (zip ks [0..<length ks]) k = None) = (k \<notin> set ks)"
  by (simp add: map_of_zip_is_None)

lemma length_filter_notin_upt:
  assumes "used \<subseteq> {0..<N}"
  shows "length (filter (\<lambda>i. i \<notin> used) [0..<N]) = N - card used"
proof -
  have fin: "finite used" using assms by (rule finite_subset) simp
  have "length (filter (\<lambda>i. i \<notin> used) [0..<N]) = card ({i. i \<notin> used} \<inter> set [0..<N])"
    by (rule distinct_length_filter) simp
  also have "{i. i \<notin> used} \<inter> set [0..<N] = {0..<N} - used" by auto
  also have "card ({0..<N} - used) = card {0..<N} - card used"
    using fin assms by (rule card_Diff_subset)
  finally show ?thesis by simp
qed

lemma sorted_distinct_index_mono:
  assumes "sorted ks" "distinct ks" "r < length ks" "r' < length ks" "ks ! r < ks ! r'"
  shows "r < r'"
proof (rule ccontr)
  assume "\<not> r < r'"
  then have "r' \<le> r" by simp
  then have "ks ! r' \<le> ks ! r" using assms(1,3) by (simp add: sorted_nth_mono)
  then show False using assms(5) by simp
qed

lemma wf_initial:
  assumes "distinct rows" "distinct cols"
  shows "wf_CostMatrix \<lparr>row_mapping = zip rows [0..<length rows],
           column_mapping = zip cols [0..<length cols],
           cost_matrix = SetSize (length rows) (length cols)\<rparr>"
  using assms by (auto simp: wf_CostMatrix_def SetSize_def in_set_zip)

lemma CostMatrix_ctor_result:
  assumes inr: "\<forall>e \<in> set include. edge_u e < GetNumVertices graph \<and> edge_v e < GetNumVertices graph"
  defines "rows \<equiv> available_rows (GetNumVertices graph) include"
    and "cols \<equiv> available_columns (GetNumVertices graph) include"
  shows "\<exists>cm. CostMatrix_ctor graph include exclude = Inr cm
     \<and> row_mapping cm = zip rows [0..<length rows]
     \<and> column_mapping cm = zip cols [0..<length cols]
     \<and> numRows (cost_matrix cm) = length rows
     \<and> numColumns (cost_matrix cm) = length cols
     \<and> wf_CostMatrix cm
     \<and> (\<forall>e. CostMatrix_at cm e =
          (if edge_u e \<in> set rows \<and> edge_v e \<in> set cols
           then Inr (if e \<in> set exclude
                     then SetInfinite (CostMatrixInteger_ctor (graph_cost graph (edge_u e) (edge_v e)) e)
                     else CostMatrixInteger_ctor (graph_cost graph (edge_u e) (edge_v e)) e)
           else Inl NotAvailableError))"
proof -
  let ?N = "GetNumVertices graph"
  from parse_included_ok[of "include" "replicate ?N True" "replicate ?N True"] inr
  obtain ra ca where p: "parse_included include (replicate ?N True) (replicate ?N True) = Inr (ra, ca)"
    and l: "length ra = ?N" "length ca = ?N"
    and a: "\<forall>i < ?N. ra ! i = (i \<notin> edge_u ` set include)"
    and b: "\<forall>j < ?N. ca ! j = (j \<notin> edge_v ` set include)"
    by auto
  have fr: "filter (\<lambda>j. ra ! j) [0..<length ra] = rows"
    unfolding rows_def available_rows_def l using a by (intro filter_cong) auto
  have fc: "filter (\<lambda>j. ca ! j) [0..<length ca] = cols"
    unfolding cols_def available_columns_def l using b by (intro filter_cong) auto
  have rm: "MakeVectorMapping ra = zip rows [0..<length rows]"
    by (simp add: MakeVectorMapping_eq fr)
  have cmap: "MakeVectorMapping ca = zip cols [0..<length cols]"
    by (simp add: MakeVectorMapping_eq fc)
  have dr: "distinct rows" and dc: "distinct cols"
    by (simp_all add: rows_def cols_def available_rows_def available_columns_def)
  have sr: "set rows \<subseteq> {0..<?N}" and sc: "set cols \<subseteq> {0..<?N}"
    by (auto simp: rows_def cols_def available_rows_def available_columns_def)
  let ?cm0 = "\<lparr>row_mapping = zip rows [0..<length rows],
           column_mapping = zip cols [0..<length cols],
           cost_matrix = SetSize (length rows) (length cols)\<rparr>"
  have wf0: "wf_CostMatrix ?cm0" by (rule wf_initial[OF dr dc])
  have av0: "IsRowAvailable ?cm0 i = (i \<in> set rows)" "IsColumnAvailable ?cm0 j = (j \<in> set cols)" for i j
    by (simp_all add: IsRowAvailable_def IsColumnAvailable_def map_of_zip_upt_None)
  from fill_rows_frame[OF wf0, of graph "[0..<?N]"]
  obtain cm1 where f1: "fill_rows graph [0..<?N] ?cm0 = Inr cm1" and sh1: "same_shape ?cm0 cm1"
    and at1: "\<forall>e'. CostMatrix_at cm1 e' =
          (if edge_u e' \<in> set [0..<?N] \<and> IsRowAvailable ?cm0 (edge_u e')
              \<and> edge_v e' < ?N \<and> IsColumnAvailable ?cm0 (edge_v e')
           then Inr (CostMatrixInteger_ctor (graph_cost graph (edge_u e') (edge_v e')) e')
           else CostMatrix_at ?cm0 e')"
    by blast
  have wf1: "wf_CostMatrix cm1" by (rule same_shape_wf[OF sh1 wf0])
  have av1: "IsRowAvailable cm1 i = (i \<in> set rows)" "IsColumnAvailable cm1 j = (j \<in> set cols)" for i j
    using same_shape_available[OF sh1] av0 by simp_all
  have at1': "CostMatrix_at cm1 e =
          (if edge_u e \<in> set rows \<and> edge_v e \<in> set cols
           then Inr (CostMatrixInteger_ctor (graph_cost graph (edge_u e) (edge_v e)) e)
           else Inl NotAvailableError)" for e
  proof (cases "edge_u e \<in> set rows \<and> edge_v e \<in> set cols")
    case True
    then show ?thesis using at1 av0 sr sc by auto
  next
    case False
    then have "CostMatrix_at cm1 e = Inl NotAvailableError"
      by (intro CostMatrix_at_unavailable) (auto simp: av1)
    then show ?thesis using False by simp
  qed
  have tot1: "\<forall>e. IsRowAvailable cm1 (edge_u e) \<and> IsColumnAvailable cm1 (edge_v e) \<longrightarrow>
           (\<exists>c. CostMatrix_at cm1 e = Inr c)"
    by (simp add: at1' av1)
  from mark_excluded_frame[OF wf1 tot1, of exclude]
  obtain cm2 where f2: "mark_excluded exclude cm1 = Inr cm2" and sh2: "same_shape cm1 cm2"
    and at2: "\<forall>e'. CostMatrix_at cm2 e' =
          (if e' \<in> set exclude \<and> IsRowAvailable cm1 (edge_u e') \<and> IsColumnAvailable cm1 (edge_v e')
           then map_sum id SetInfinite (CostMatrix_at cm1 e')
           else CostMatrix_at cm1 e')"
    by blast
  have sh: "same_shape ?cm0 cm2" by (rule same_shape_trans[OF sh1 sh2])
  have "CostMatrix_ctor graph include exclude = Inr cm2"
    by (simp add: CostMatrix_ctor_def p rm cmap Let_def f1 f2)
  moreover have "row_mapping cm2 = zip rows [0..<length rows]"
      "column_mapping cm2 = zip cols [0..<length cols]"
      "numRows (cost_matrix cm2) = length rows" "numColumns (cost_matrix cm2) = length cols"
    using sh by (simp_all add: same_shape_def SetSize_def)
  moreover have "wf_CostMatrix cm2" by (rule same_shape_wf[OF sh wf0])
  moreover have "CostMatrix_at cm2 e =
          (if edge_u e \<in> set rows \<and> edge_v e \<in> set cols
           then Inr (if e \<in> set exclude
                     then SetInfinite (CostMatrixInteger_ctor (graph_cost graph (edge_u e) (edge_v e)) e)
                     else CostMatrixInteger_ctor (graph_cost graph (edge_u e) (edge_v e)) e)
           else Inl NotAvailableError)" for e
    using at2 at1' av1 by auto
  ultimately show ?thesis by blast
qed

lemma set_available_rows: "set (available_rows N inc) = {i. i < N \<and> i \<notin> edge_u ` set inc}"
  by (auto simp: available_rows_def)

lemma set_available_columns: "set (available_columns N inc) = {j. j < N \<and> j \<notin> edge_v ` set inc}"
  by (auto simp: available_columns_def)

lemma distinct_sorted_available:
  "distinct (available_rows N inc)" "sorted (available_rows N inc)"
  "distinct (available_columns N inc)" "sorted (available_columns N inc)"
  by (simp_all add: available_rows_def available_columns_def sorted_wrt_filter)

lemma length_available_rows:
  "\<forall>e \<in> set inc. edge_u e < N \<Longrightarrow> length (available_rows N inc) = N - card (edge_u ` set inc)"
  unfolding available_rows_def by (rule length_filter_notin_upt) auto

lemma length_available_columns:
  "\<forall>e \<in> set inc. edge_v e < N \<Longrightarrow> length (available_columns N inc) = N - card (edge_v ` set inc)"
  unfolding available_columns_def by (rule length_filter_notin_upt) auto

lemma enum_mapping_props:
  assumes d: "distinct ks" and s: "sorted ks"
  defines "mp \<equiv> zip ks [0..<length ks]"
  shows "length mp = length ks" "distinct (map fst mp)" "dom (map_of mp) = set ks"
    "inj_on (map_of mp) (dom (map_of mp))" "ran (map_of mp) = {0..<length ks}"
    "\<forall>i i' r r'. i < i' \<and> map_of mp i = Some r \<and> map_of mp i' = Some r' \<longrightarrow> r < r'"
proof -
  show "length mp = length ks" by (simp add: mp_def)
  show "distinct (map fst mp)" using d by (simp add: mp_def)
  show dom: "dom (map_of mp) = set ks" by (simp add: mp_def dom_map_of_zip)
  show "inj_on (map_of mp) (dom (map_of mp))"
  proof (rule inj_onI)
    fix x y assume "x \<in> dom (map_of mp)" "y \<in> dom (map_of mp)" "map_of mp x = map_of mp y"
    then obtain r where "map_of mp x = Some r" "map_of mp y = Some r" by auto
    then have "ks ! r = x" "ks ! r = y"
      using map_of_zip_upt[OF d] unfolding mp_def by blast+
    then show "x = y" by simp
  qed
  show "ran (map_of mp) = {0..<length ks}"
    using d by (simp add: mp_def ran_map_of_zip)
  show "\<forall>i i' r r'. i < i' \<and> map_of mp i = Some r \<and> map_of mp i' = Some r' \<longrightarrow> r < r'"
  proof (intro allI impI)
    fix i i' r r'
    assume h: "i < i' \<and> map_of mp i = Some r \<and> map_of mp i' = Some r'"
    then have "r < length ks \<and> ks ! r = i" "r' < length ks \<and> ks ! r' = i'"
      using map_of_zip_upt[OF d] unfolding mp_def by blast+
    then show "r < r'"
      using h sorted_distinct_index_mono[OF s d, of r r'] by simp
  qed
qed

text \<open>
  Claim C2. For a graph of \<open>N\<close> vertices and include edges between its vertices, the
  constructor succeeds; the condensed row count is \<open>N\<close> minus the number of distinct
  include-edge origins and the column count is \<open>N\<close> minus the number of distinct
  destinations; each mapping has one entry per key, is defined exactly on the available
  vertices, is injective, has the gap-free range \<open>[0, R)\<close> resp. \<open>[0, C)\<close> as its set
  of values, and preserves the order of the available vertices.
\<close>

theorem condensed_dimensions_and_mappings:
  assumes "\<forall>e \<in> set include. edge_u e < GetNumVertices graph \<and> edge_v e < GetNumVertices graph"
  shows "\<exists>cm. CostMatrix_ctor graph include exclude = Inr cm
     \<and> numRows (cost_matrix cm) = GetNumVertices graph - card (edge_u ` set include)
     \<and> numColumns (cost_matrix cm) = GetNumVertices graph - card (edge_v ` set include)
     \<and> length (row_mapping cm) = numRows (cost_matrix cm)
     \<and> length (column_mapping cm) = numColumns (cost_matrix cm)
     \<and> distinct (map fst (row_mapping cm)) \<and> distinct (map fst (column_mapping cm))
     \<and> dom (map_of (row_mapping cm)) = {i. i < GetNumVertices graph \<and> i \<notin> edge_u ` set include}
     \<and> dom (map_of (column_mapping cm)) = {j. j < GetNumVertices graph \<and> j \<notin> edge_v ` set include}
     \<and> inj_on (map_of (row_mapping cm)) (dom (map_of (row_mapping cm)))
     \<and> inj_on (map_of (column_mapping cm)) (dom (map_of (column_mapping cm)))
     \<and> ran (map_of (row_mapping cm)) = {0..<numRows (cost_matrix cm)}
     \<and> ran (map_of (column_mapping cm)) = {0..<numColumns (cost_matrix cm)}
     \<and> (\<forall>i i' r r'. i < i' \<and> map_of (row_mapping cm) i = Some r
            \<and> map_of (row_mapping cm) i' = Some r' \<longrightarrow> r < r')
     \<and> (\<forall>j j' c c'. j < j' \<and> map_of (column_mapping cm) j = Some c
            \<and> map_of (column_mapping cm) j' = Some c' \<longrightarrow> c < c')"
proof -
  let ?N = "GetNumVertices graph"
  let ?rows = "available_rows ?N include" and ?cols = "available_columns ?N include"
  from CostMatrix_ctor_result[OF assms, of exclude] obtain cm where
    c: "CostMatrix_ctor graph include exclude = Inr cm"
    and rm: "row_mapping cm = zip ?rows [0..<length ?rows]"
    and cmap: "column_mapping cm = zip ?cols [0..<length ?cols]"
    and nr: "numRows (cost_matrix cm) = length ?rows"
    and nc: "numColumns (cost_matrix cm) = length ?cols"
    by blast
  have lr: "length ?rows = ?N - card (edge_u ` set include)"
    using assms by (intro length_available_rows) simp
  have lc: "length ?cols = ?N - card (edge_v ` set include)"
    using assms by (intro length_available_columns) simp
  note pr = enum_mapping_props[OF distinct_sorted_available(1,2), of ?N "include", folded rm]
  note pc = enum_mapping_props[OF distinct_sorted_available(3,4), of ?N "include", folded cmap]
  show ?thesis
    apply (rule exI[of _ cm])
    apply (intro conjI)
    using c apply simp
    using nr lr apply simp
    using nc lc apply simp
    using pr(1) nr apply simp
    using pc(1) nc apply simp
    using pr(2) apply simp
    using pc(2) apply simp
    using pr(3) apply (simp add: set_available_rows)
    using pc(3) apply (simp add: set_available_columns)
    using pr(4) apply simp
    using pc(4) apply simp
    using pr(5) nr apply simp
    using pc(5) nc apply simp
    using pr(6) apply blast
    using pc(6) apply blast
    done
qed

theorem condensed_dimensions_and_mappings_witness:
  "\<exists>cm. CostMatrix_ctor scenario_graph [Edge 0 1] [] = Inr cm
     \<and> numRows (cost_matrix cm) = 3 \<and> numColumns (cost_matrix cm) = 3
     \<and> dom (map_of (row_mapping cm)) = {1, 2, 3}
     \<and> dom (map_of (column_mapping cm)) = {0, 2, 3}
     \<and> ran (map_of (row_mapping cm)) = {0..<3}
     \<and> ran (map_of (column_mapping cm)) = {0..<3}"
proof -
  have h: "\<forall>e \<in> set [Edge 0 1].
      edge_u e < GetNumVertices scenario_graph \<and> edge_v e < GetNumVertices scenario_graph"
    by (simp add: scenario_graph_def)
  have r: "{i. i < (4::nat) \<and> 0 < i} = {1, 2, 3}" by auto
  have c: "{j. j < (4::nat) \<and> j \<noteq> Suc 0} = {0, 2, 3}" by auto
  from condensed_dimensions_and_mappings[OF h, of "[]"] obtain cm where
    f: "CostMatrix_ctor scenario_graph [Edge 0 1] [] = Inr cm"
    "numRows (cost_matrix cm) = GetNumVertices scenario_graph - card (edge_u ` set [Edge 0 1])"
    "numColumns (cost_matrix cm) = GetNumVertices scenario_graph - card (edge_v ` set [Edge 0 1])"
    "dom (map_of (row_mapping cm)) =
       {i. i < GetNumVertices scenario_graph \<and> i \<notin> edge_u ` set [Edge 0 1]}"
    "dom (map_of (column_mapping cm)) =
       {j. j < GetNumVertices scenario_graph \<and> j \<notin> edge_v ` set [Edge 0 1]}"
    "ran (map_of (row_mapping cm)) = {0..<numRows (cost_matrix cm)}"
    "ran (map_of (column_mapping cm)) = {0..<numColumns (cost_matrix cm)}"
    by (elim exE conjE) (rule that; assumption)
  have n: "numRows (cost_matrix cm) = 3" "numColumns (cost_matrix cm) = 3"
    using f(2,3) by (simp_all add: scenario_graph_def)
  have d: "dom (map_of (row_mapping cm)) = {1, 2, 3}" "dom (map_of (column_mapping cm)) = {0, 2, 3}"
    using f(4,5) r c by (simp_all add: scenario_graph_def)
  show ?thesis
    using f(1,6,7) n d by (intro exI[of _ cm]) simp
qed

lemma CostMatrix_assign_same_shape:
  "CostMatrix_assign cm e x = Inr cm' \<Longrightarrow> same_shape cm cm'"
  by (auto simp: CostMatrix_assign_def Matrix_set_def same_shape_def
      split: sum.splits if_splits)

lemma mark_excluded_filter:
  assumes "\<forall>i. IsRowAvailable cm i = (i \<in> R)" "\<forall>j. IsColumnAvailable cm j = (j \<in> C)"
  shows "mark_excluded es cm = mark_excluded (filter (\<lambda>e. edge_u e \<in> R \<and> edge_v e \<in> C) es) cm"
  using assms
proof (induction es arbitrary: cm)
  case Nil
  then show ?case by simp
next
  case (Cons e es)
  show ?case
  proof (cases "edge_u e \<in> R \<and> edge_v e \<in> C")
    case False
    then show ?thesis using Cons by auto
  next
    case True
    have "mark_excluded es cm' = mark_excluded (filter (\<lambda>e. edge_u e \<in> R \<and> edge_v e \<in> C) es) cm'"
      if "CostMatrix_assign cm e x = Inr cm'" for x cm'
    proof -
      have "same_shape cm cm'" using that by (rule CostMatrix_assign_same_shape)
      then show ?thesis
        using Cons.prems same_shape_available[of cm cm'] by (intro Cons.IH) simp_all
    qed
    then show ?thesis
      using True Cons.prems by (auto split: sum.splits)
  qed
qed

lemma CostMatrix_ctor_filter_exclude:
  "CostMatrix_ctor graph include exclude =
   CostMatrix_ctor graph include (filter (both_available (GetNumVertices graph) include) exclude)"
proof (cases "\<forall>e \<in> set include. edge_u e < GetNumVertices graph \<and> edge_v e < GetNumVertices graph")
  case inr: True
  let ?N = "GetNumVertices graph"
  let ?rows = "available_rows ?N include" and ?cols = "available_columns ?N include"
  from parse_included_ok[of "include" "replicate ?N True" "replicate ?N True"] inr
  obtain ra ca where p: "parse_included include (replicate ?N True) (replicate ?N True) = Inr (ra, ca)"
    by auto
  let ?cm0 = "\<lparr>row_mapping = MakeVectorMapping ra, column_mapping = MakeVectorMapping ca,
       cost_matrix = SetSize (length (MakeVectorMapping ra)) (length (MakeVectorMapping ca))\<rparr>"
  show ?thesis
  proof (cases "fill_rows graph [0..<?N] ?cm0")
    case (Inl x)
    then show ?thesis by (simp add: CostMatrix_ctor_def p Let_def)
  next
    case (Inr cm1)
    from CostMatrix_ctor_result[OF inr, of "[]"] obtain cm where
      c: "CostMatrix_ctor graph include [] = Inr cm"
      and rm: "row_mapping cm = zip ?rows [0..<length ?rows]"
      and cmap: "column_mapping cm = zip ?cols [0..<length ?cols]"
      by blast
    have "cm = cm1" using c Inr by (simp add: CostMatrix_ctor_def p Let_def)
    then have av: "\<forall>i. IsRowAvailable cm1 i = (i \<in> set ?rows)"
        "\<forall>j. IsColumnAvailable cm1 j = (j \<in> set ?cols)"
      using rm cmap by (simp_all add: IsRowAvailable_def IsColumnAvailable_def map_of_zip_upt_None)
    have f: "(\<lambda>e. edge_u e \<in> set ?rows \<and> edge_v e \<in> set ?cols) = both_available ?N include"
      by (auto simp: both_available_def set_available_rows set_available_columns fun_eq_iff)
    show ?thesis
      using mark_excluded_filter[OF av, of exclude] Inr
      by (simp add: CostMatrix_ctor_def p Let_def f)
  qed
next
  case False
  then obtain e where e: "e \<in> set include"
    "\<not> (edge_u e < GetNumVertices graph \<and> edge_v e < GetNumVertices graph)" by blast
  have "\<exists>x. parse_included es ra ca = Inl x"
    if "e \<in> set es" "\<not> (edge_u e < length ra \<and> edge_v e < length ca)" for es ra ca
    using that by (induction es arbitrary: ra ca) auto
  from this[OF e(1), of "replicate (GetNumVertices graph) True" "replicate (GetNumVertices graph) True"] e(2)
  obtain x where "parse_included include (replicate (GetNumVertices graph) True)
      (replicate (GetNumVertices graph) True) = Inl x" by auto
  then show ?thesis by (simp add: CostMatrix_ctor_def)
qed

text \<open>
  Claim C3. In the constructed matrix, before any reduction: the cell of every exclude
  edge whose endpoints are both available is infinite; the exclude edges with an
  unavailable endpoint are skipped (the constructor returns the matrix it returns
  without them); and the cell at an available row and column not named by an exclude
  edge is the finite cell holding \<open>graph(i, j)\<close> with provenance \<open>Edge{i, j}\<close>.
\<close>

theorem excluded_cells_infinite_others_keep_cost:
  assumes "\<forall>e \<in> set include. edge_u e < GetNumVertices graph \<and> edge_v e < GetNumVertices graph"
  shows "\<exists>cm. CostMatrix_ctor graph include exclude = Inr cm
     \<and> (\<forall>e. IsRowAvailable cm (edge_u e) \<and> IsColumnAvailable cm (edge_v e)
             \<longleftrightarrow> both_available (GetNumVertices graph) include e)
     \<and> (\<forall>e \<in> set exclude. both_available (GetNumVertices graph) include e \<longrightarrow>
           (\<exists>c. CostMatrix_at cm e = Inr c \<and> IsInfinite c))
     \<and> CostMatrix_ctor graph include
           (filter (both_available (GetNumVertices graph) include) exclude) = Inr cm
     \<and> (\<forall>i j. both_available (GetNumVertices graph) include (Edge i j) \<and> Edge i j \<notin> set exclude \<longrightarrow>
           CostMatrix_at2 cm i j = Inr (CostMatrixInteger_ctor (graph_cost graph i j) (Edge i j))
           \<and> (\<exists>c. CostMatrix_at cm (Edge i j) = Inr c \<and> \<not> IsInfinite c
                 \<and> cmi_value c = graph_cost graph i j \<and> cmi_edge c = Edge i j))"
proof -
  let ?N = "GetNumVertices graph"
  let ?rows = "available_rows ?N include" and ?cols = "available_columns ?N include"
  from CostMatrix_ctor_result[OF assms, of exclude] obtain cm where
    c: "CostMatrix_ctor graph include exclude = Inr cm"
    and rm: "row_mapping cm = zip ?rows [0..<length ?rows]"
    and cmap: "column_mapping cm = zip ?cols [0..<length ?cols]"
    and at: "\<forall>e. CostMatrix_at cm e =
          (if edge_u e \<in> set ?rows \<and> edge_v e \<in> set ?cols
           then Inr (if e \<in> set exclude
                     then SetInfinite (CostMatrixInteger_ctor (graph_cost graph (edge_u e) (edge_v e)) e)
                     else CostMatrixInteger_ctor (graph_cost graph (edge_u e) (edge_v e)) e)
           else Inl NotAvailableError)"
    by blast
  have ba: "(edge_u e \<in> set ?rows \<and> edge_v e \<in> set ?cols) = both_available ?N include e" for e
    by (auto simp: both_available_def set_available_rows set_available_columns)
  have av: "(IsRowAvailable cm (edge_u e) \<and> IsColumnAvailable cm (edge_v e))
             = both_available ?N include e" for e
    using rm cmap ba[of e]
    by (simp add: IsRowAvailable_def IsColumnAvailable_def map_of_zip_upt_None)
  have ex: "\<exists>c. CostMatrix_at cm e = Inr c \<and> IsInfinite c"
    if "e \<in> set exclude" "both_available ?N include e" for e
    using at ba[of e] that by (simp add: IsInfinite_def SetInfinite_def)
  have fl: "CostMatrix_ctor graph include (filter (both_available ?N include) exclude) = Inr cm"
    using c CostMatrix_ctor_filter_exclude[of graph "include" exclude] by simp
  have keep: "CostMatrix_at2 cm i j = Inr (CostMatrixInteger_ctor (graph_cost graph i j) (Edge i j))
           \<and> (\<exists>c. CostMatrix_at cm (Edge i j) = Inr c \<and> \<not> IsInfinite c
                 \<and> cmi_value c = graph_cost graph i j \<and> cmi_edge c = Edge i j)"
    if "both_available ?N include (Edge i j)" "Edge i j \<notin> set exclude" for i j
    using at ba[of "Edge i j"] that
    by (simp add: CostMatrix_at2_def IsInfinite_def CostMatrixInteger_ctor_def)
  show ?thesis
  proof (intro exI[of _ cm] conjI)
    show "CostMatrix_ctor graph include exclude = Inr cm" by (rule c)
    show "\<forall>e. (IsRowAvailable cm (edge_u e) \<and> IsColumnAvailable cm (edge_v e))
             = both_available ?N include e" using av by simp
    show "\<forall>e \<in> set exclude. both_available ?N include e \<longrightarrow>
           (\<exists>c. CostMatrix_at cm e = Inr c \<and> IsInfinite c)" using ex by simp
    show "CostMatrix_ctor graph include (filter (both_available ?N include) exclude) = Inr cm"
      by (rule fl)
    show "\<forall>i j. both_available ?N include (Edge i j) \<and> Edge i j \<notin> set exclude \<longrightarrow>
           CostMatrix_at2 cm i j = Inr (CostMatrixInteger_ctor (graph_cost graph i j) (Edge i j))
           \<and> (\<exists>c. CostMatrix_at cm (Edge i j) = Inr c \<and> \<not> IsInfinite c
                 \<and> cmi_value c = graph_cost graph i j \<and> cmi_edge c = Edge i j)"
      using keep by simp
  qed
qed

theorem excluded_cells_infinite_others_keep_cost_witness:
  "\<exists>cm. CostMatrix_ctor scenario_graph [Edge 0 1] [Edge 2 3, Edge 0 2] = Inr cm
     \<and> (\<exists>c. CostMatrix_at cm (Edge 2 3) = Inr c \<and> IsInfinite c)
     \<and> CostMatrix_ctor scenario_graph [Edge 0 1] [Edge 2 3] = Inr cm
     \<and> CostMatrix_at2 cm 1 0 = Inr (CostMatrixInteger_ctor 10 (Edge 1 0))"
proof -
  let ?N = "GetNumVertices scenario_graph"
  have h: "\<forall>e \<in> set [Edge 0 1]. edge_u e < ?N \<and> edge_v e < ?N"
    by (simp add: scenario_graph_def)
  have b: "both_available ?N [Edge 0 1] (Edge 2 3)" "\<not> both_available ?N [Edge 0 1] (Edge 0 2)"
    "both_available ?N [Edge 0 1] (Edge 1 0)"
    by (simp_all add: both_available_def scenario_graph_def)
  from excluded_cells_infinite_others_keep_cost[OF h, of "[Edge 2 3, Edge 0 2]"] obtain cm where
    f: "CostMatrix_ctor scenario_graph [Edge 0 1] [Edge 2 3, Edge 0 2] = Inr cm"
    "\<forall>e \<in> set [Edge 2 3, Edge 0 2]. both_available ?N [Edge 0 1] e \<longrightarrow>
           (\<exists>c. CostMatrix_at cm e = Inr c \<and> IsInfinite c)"
    "CostMatrix_ctor scenario_graph [Edge 0 1]
           (filter (both_available ?N [Edge 0 1]) [Edge 2 3, Edge 0 2]) = Inr cm"
    "\<forall>i j. both_available ?N [Edge 0 1] (Edge i j) \<and> Edge i j \<notin> set [Edge 2 3, Edge 0 2] \<longrightarrow>
           CostMatrix_at2 cm i j =
             Inr (CostMatrixInteger_ctor (graph_cost scenario_graph i j) (Edge i j))
           \<and> (\<exists>c. CostMatrix_at cm (Edge i j) = Inr c \<and> \<not> IsInfinite c
                 \<and> cmi_value c = graph_cost scenario_graph i j \<and> cmi_edge c = Edge i j)"
    by (elim exE conjE) (rule that; assumption)
  have 1: "\<exists>c. CostMatrix_at cm (Edge 2 3) = Inr c \<and> IsInfinite c"
    using f(2) b(1) by simp
  have 2: "CostMatrix_ctor scenario_graph [Edge 0 1] [Edge 2 3] = Inr cm"
    using f(3) b(1,2) by simp
  have "CostMatrix_at2 cm 1 0 =
      Inr (CostMatrixInteger_ctor (graph_cost scenario_graph 1 0) (Edge 1 0))"
    using f(4) b(3) by simp
  then have 3: "CostMatrix_at2 cm 1 0 = Inr (CostMatrixInteger_ctor 10 (Edge 1 0))"
    by (simp add: scenario_graph_def scenario_costs_def)
  show ?thesis using f(1) 1 2 3 by (intro exI[of _ cm]) simp
qed

lemma filter_upt_index:
  assumes "u < N" "P u"
  shows "length (filter P [0..<u]) < length (filter P [0..<N])"
    "filter P [0..<N] ! length (filter P [0..<u]) = u"
proof -
  have "[0..<N] = [0..<u] @ u # [Suc u..<N]"
    using assms(1) by (metis less_imp_le_nat upt_add_eq_append upt_conv_Cons plus_nat.add_0 le0 le_add_diff_inverse)
  then have f: "filter P [0..<N] = filter P [0..<u] @ u # filter P [Suc u..<N]"
    using assms(2) by simp
  show "length (filter P [0..<u]) < length (filter P [0..<N])"
    unfolding f by simp
  show "filter P [0..<N] ! length (filter P [0..<u]) = u"
    unfolding f by (simp add: nth_append)
qed

lemma map_of_available:
  assumes "u < N" "u \<notin> used"
  shows "map_of (zip (filter (\<lambda>k. k \<notin> used) [0..<N])
                     [0..<length (filter (\<lambda>k. k \<notin> used) [0..<N])]) u
           = Some (condensed_index used u)"
    "condensed_index used u < length (filter (\<lambda>k. k \<notin> used) [0..<N])"
proof -
  let ?ks = "filter (\<lambda>k. k \<notin> used) [0..<N]"
  have d: "distinct ?ks" by simp
  note i = filter_upt_index[of u N "\<lambda>k. k \<notin> used", OF assms]
  show "condensed_index used u < length ?ks"
    using i(1) by (simp add: condensed_index_def)
  show "map_of (zip ?ks [0..<length ?ks]) u = Some (condensed_index used u)"
    using map_of_zip_upt[OF d, of u "condensed_index used u"] i
    unfolding condensed_index_def by blast
qed


text \<open>
  Claim C7. On the constructed matrix, a query naming the origin of an include edge as
  its row, or the destination of one as its column, fails with \<open>NotAvailableError\<close>
  in \<open>operator()(row, column)\<close>, \<open>operator()(Edge)\<close> (read or assigned through) and
  \<open>GetRow\<close> resp. \<open>GetColumn\<close>. For an available vertex the mapping holds its
  condensed index, the number of available vertices below it, which lies inside the
  storage; \<open>GetCondensedRowNum\<close> and \<open>GetCondensedColumnNum\<close> return it, and \<open>GetRow\<close>
  and \<open>GetColumn\<close> the view at it. When both endpoints are available the cell operations
  read and assign the cell at the two condensed indices, which holds the cost of the
  edge, made infinite if the edge is excluded.
\<close>

theorem unavailable_vertex_queries_fail:
  assumes "\<forall>e \<in> set include. edge_u e < GetNumVertices graph \<and> edge_v e < GetNumVertices graph"
  shows "\<exists>cm. CostMatrix_ctor graph include exclude = Inr cm
     \<and> (\<forall>u v x. u \<in> edge_u ` set include \<longrightarrow>
           GetRow cm u = Inl NotAvailableError
           \<and> CostMatrix_at2 cm u v = Inl NotAvailableError
           \<and> CostMatrix_at cm (Edge u v) = Inl NotAvailableError
           \<and> CostMatrix_assign cm (Edge u v) x = Inl NotAvailableError)
     \<and> (\<forall>u v x. v \<in> edge_v ` set include \<longrightarrow>
           GetColumn cm v = Inl NotAvailableError
           \<and> CostMatrix_at2 cm u v = Inl NotAvailableError
           \<and> CostMatrix_at cm (Edge u v) = Inl NotAvailableError
           \<and> CostMatrix_assign cm (Edge u v) x = Inl NotAvailableError)
     \<and> (\<forall>u. u < GetNumVertices graph \<and> u \<notin> edge_u ` set include \<longrightarrow>
           condensed_index (edge_u ` set include) u < numRows (cost_matrix cm)
           \<and> map_of (row_mapping cm) u = Some (condensed_index (edge_u ` set include) u)
           \<and> GetCondensedRowNum cm u = Inr (condensed_index (edge_u ` set include) u)
           \<and> GetRow cm u = Inr (CostRow (condensed_index (edge_u ` set include) u)))
     \<and> (\<forall>v. v < GetNumVertices graph \<and> v \<notin> edge_v ` set include \<longrightarrow>
           condensed_index (edge_v ` set include) v < numColumns (cost_matrix cm)
           \<and> map_of (column_mapping cm) v = Some (condensed_index (edge_v ` set include) v)
           \<and> GetCondensedColumnNum cm v = Inr (condensed_index (edge_v ` set include) v)
           \<and> GetColumn cm v = Inr (CostColumn (condensed_index (edge_v ` set include) v)))
     \<and> (\<forall>u v x. u < GetNumVertices graph \<and> u \<notin> edge_u ` set include
               \<and> v < GetNumVertices graph \<and> v \<notin> edge_v ` set include \<longrightarrow>
           CostMatrix_at2 cm u v =
             Inr (entries (cost_matrix cm)
                    (condensed_index (edge_u ` set include) u,
                     condensed_index (edge_v ` set include) v))
           \<and> CostMatrix_at cm (Edge u v) =
             Inr (entries (cost_matrix cm)
                    (condensed_index (edge_u ` set include) u,
                     condensed_index (edge_v ` set include) v))
           \<and> entries (cost_matrix cm)
                    (condensed_index (edge_u ` set include) u,
                     condensed_index (edge_v ` set include) v) =
               (if Edge u v \<in> set exclude
                then SetInfinite (CostMatrixInteger_ctor (graph_cost graph u v) (Edge u v))
                else CostMatrixInteger_ctor (graph_cost graph u v) (Edge u v))
           \<and> CostMatrix_assign cm (Edge u v) x =
             Inr (cm\<lparr>cost_matrix := (cost_matrix cm)\<lparr>entries := (entries (cost_matrix cm))
                    ((condensed_index (edge_u ` set include) u,
                      condensed_index (edge_v ` set include) v) := x)\<rparr>\<rparr>))"
proof -
  let ?N = "GetNumVertices graph"
  let ?rows = "available_rows ?N include" and ?cols = "available_columns ?N include"
  let ?ri = "condensed_index (edge_u ` set include)"
  let ?ci = "condensed_index (edge_v ` set include)"
  from CostMatrix_ctor_result[OF assms, of exclude] obtain cm where
    c: "CostMatrix_ctor graph include exclude = Inr cm"
    and rm: "row_mapping cm = zip ?rows [0..<length ?rows]"
    and cmap: "column_mapping cm = zip ?cols [0..<length ?cols]"
    and nr: "numRows (cost_matrix cm) = length ?rows"
    and nc: "numColumns (cost_matrix cm) = length ?cols"
    and wf: "wf_CostMatrix cm"
    and cells: "\<forall>e. CostMatrix_at cm e =
          (if edge_u e \<in> set ?rows \<and> edge_v e \<in> set ?cols
           then Inr (if e \<in> set exclude
                     then SetInfinite (CostMatrixInteger_ctor (graph_cost graph (edge_u e) (edge_v e)) e)
                     else CostMatrixInteger_ctor (graph_cost graph (edge_u e) (edge_v e)) e)
           else Inl NotAvailableError)"
    by (elim exE conjE) (rule that; assumption)
  have avr: "IsRowAvailable cm u = (u < ?N \<and> u \<notin> edge_u ` set include)" for u
    using rm by (simp add: IsRowAvailable_def map_of_zip_upt_None set_available_rows)
  have avc: "IsColumnAvailable cm v = (v < ?N \<and> v \<notin> edge_v ` set include)" for v
    using cmap by (simp add: IsColumnAvailable_def map_of_zip_upt_None set_available_columns)
  have gr: "\<not> IsRowAvailable cm u \<Longrightarrow> GetCondensedRowNum cm u = Inl NotAvailableError" for u
    by (simp add: GetCondensedRowNum_def)
  have gc: "\<not> IsColumnAvailable cm v \<Longrightarrow> GetCondensedColumnNum cm v = Inl NotAvailableError" for v
    by (simp add: GetCondensedColumnNum_def)
  have colerr: "GetCondensedColumnNum cm v = Inl NotAvailableError \<Longrightarrow>
      CostMatrix_at cm (Edge u v) = Inl NotAvailableError
      \<and> CostMatrix_assign cm (Edge u v) x = Inl NotAvailableError" for u v x
    by (cases "IsRowAvailable cm u")
       (auto simp: CostMatrix_at_def CostMatrix_assign_def GetCondensedRowNum_def
          IsRowAvailable_def split: sum.splits option.splits)
  have a: "GetRow cm u = Inl NotAvailableError
           \<and> CostMatrix_at2 cm u v = Inl NotAvailableError
           \<and> CostMatrix_at cm (Edge u v) = Inl NotAvailableError
           \<and> CostMatrix_assign cm (Edge u v) x = Inl NotAvailableError"
    if "u \<in> edge_u ` set include" for u v x
  proof -
    have "\<not> IsRowAvailable cm u" using that avr by simp
    then show ?thesis
      by (simp add: GetRow_def CostMatrix_at2_def CostMatrix_at_def CostMatrix_assign_def gr)
  qed
  have b: "GetColumn cm v = Inl NotAvailableError
           \<and> CostMatrix_at2 cm u v = Inl NotAvailableError
           \<and> CostMatrix_at cm (Edge u v) = Inl NotAvailableError
           \<and> CostMatrix_assign cm (Edge u v) x = Inl NotAvailableError"
    if "v \<in> edge_v ` set include" for u v x
  proof -
    have "\<not> IsColumnAvailable cm v" using that avc by simp
    then have "GetCondensedColumnNum cm v = Inl NotAvailableError" by (rule gc)
    then show ?thesis using colerr[of v u x]
      by (simp add: GetColumn_def CostMatrix_at2_def)
  qed
  have mr: "map_of (row_mapping cm) u = Some (?ri u)" "?ri u < numRows (cost_matrix cm)"
    if "u < ?N \<and> u \<notin> edge_u ` set include" for u
    using map_of_available[of u ?N "edge_u ` set include"] that
    unfolding rm nr available_rows_def by simp_all
  have mc: "map_of (column_mapping cm) v = Some (?ci v)" "?ci v < numColumns (cost_matrix cm)"
    if "v < ?N \<and> v \<notin> edge_v ` set include" for v
    using map_of_available[of v ?N "edge_v ` set include"] that
    unfolding cmap nc available_columns_def by simp_all
  have r: "?ri u < numRows (cost_matrix cm)
           \<and> map_of (row_mapping cm) u = Some (?ri u)
           \<and> GetCondensedRowNum cm u = Inr (?ri u)
           \<and> GetRow cm u = Inr (CostRow (?ri u))"
    if "u < ?N \<and> u \<notin> edge_u ` set include" for u
    using mr[OF that]
    by (simp add: GetRow_def GetCondensedRowNum_def IsRowAvailable_def)
  have cl: "?ci v < numColumns (cost_matrix cm)
           \<and> map_of (column_mapping cm) v = Some (?ci v)
           \<and> GetCondensedColumnNum cm v = Inr (?ci v)
           \<and> GetColumn cm v = Inr (CostColumn (?ci v))"
    if "v < ?N \<and> v \<notin> edge_v ` set include" for v
    using mc[OF that]
    by (simp add: GetColumn_def GetCondensedColumnNum_def IsColumnAvailable_def)
  have ok: "CostMatrix_at2 cm u v = Inr (entries (cost_matrix cm) (?ri u, ?ci v))
           \<and> CostMatrix_at cm (Edge u v) = Inr (entries (cost_matrix cm) (?ri u, ?ci v))
           \<and> entries (cost_matrix cm) (?ri u, ?ci v) =
               (if Edge u v \<in> set exclude
                then SetInfinite (CostMatrixInteger_ctor (graph_cost graph u v) (Edge u v))
                else CostMatrixInteger_ctor (graph_cost graph u v) (Edge u v))
           \<and> CostMatrix_assign cm (Edge u v) x =
             Inr (cm\<lparr>cost_matrix := (cost_matrix cm)\<lparr>entries := (entries (cost_matrix cm))
                    ((?ri u, ?ci v) := x)\<rparr>\<rparr>)"
    if h: "u < ?N \<and> u \<notin> edge_u ` set include \<and> v < ?N \<and> v \<notin> edge_v ` set include" for u v x
  proof -
    have m: "map_of (row_mapping cm) (edge_u (Edge u v)) = Some (?ri u)"
      "map_of (column_mapping cm) (edge_v (Edge u v)) = Some (?ci v)"
      using mr(1)[of u] mc(1)[of v] h by simp_all
    have at: "CostMatrix_at cm (Edge u v) = Inr (entries (cost_matrix cm) (?ri u, ?ci v))"
      by (rule CostMatrix_at_available[OF wf m])
    have "CostMatrix_at cm (Edge u v) =
        Inr (if Edge u v \<in> set exclude
                then SetInfinite (CostMatrixInteger_ctor (graph_cost graph u v) (Edge u v))
                else CostMatrixInteger_ctor (graph_cost graph u v) (Edge u v))"
      using cells[rule_format, of "Edge u v"] h
      by (simp add: set_available_rows set_available_columns)
    then have cell: "entries (cost_matrix cm) (?ri u, ?ci v) =
               (if Edge u v \<in> set exclude
                then SetInfinite (CostMatrixInteger_ctor (graph_cost graph u v) (Edge u v))
                else CostMatrixInteger_ctor (graph_cost graph u v) (Edge u v))"
      unfolding at by simp
    show ?thesis
      using at cell CostMatrix_assign_available[OF wf m, of x]
      by (simp add: CostMatrix_at2_def)
  qed
  show ?thesis
    apply (rule exI[of _ cm])
    apply (intro conjI)
    subgoal by (rule c)
    subgoal using a by blast
    subgoal using b by blast
    subgoal using r by blast
    subgoal using cl by blast
    subgoal using ok by blast
    done
qed

theorem unavailable_vertex_queries_fail_witness:
  "\<exists>cm. CostMatrix_ctor scenario_graph [Edge 0 1] [] = Inr cm
     \<and> GetRow cm 0 = Inl NotAvailableError
     \<and> GetColumn cm 1 = Inl NotAvailableError
     \<and> CostMatrix_at2 cm 0 2 = Inl NotAvailableError
     \<and> CostMatrix_at cm (Edge 2 1) = Inl NotAvailableError
     \<and> GetRow cm 2 = Inr (CostRow 1) \<and> GetColumn cm 3 = Inr (CostColumn 2)
     \<and> CostMatrix_at2 cm 2 3 = Inr (entries (cost_matrix cm) (1, 2))
     \<and> entries (cost_matrix cm) (1, 2) = CostMatrixInteger_ctor 30 (Edge 2 3)"
proof -
  let ?N = "GetNumVertices scenario_graph"
  have h: "\<forall>e \<in> set [Edge 0 1]. edge_u e < ?N \<and> edge_v e < ?N"
    by (simp add: scenario_graph_def)
  from unavailable_vertex_queries_fail[OF h, of "[]"] obtain cm where
    f: "CostMatrix_ctor scenario_graph [Edge 0 1] [] = Inr cm"
    "\<forall>u v x. u \<in> edge_u ` set [Edge 0 1] \<longrightarrow>
           GetRow cm u = Inl NotAvailableError
           \<and> CostMatrix_at2 cm u v = Inl NotAvailableError
           \<and> CostMatrix_at cm (Edge u v) = Inl NotAvailableError
           \<and> CostMatrix_assign cm (Edge u v) x = Inl NotAvailableError"
    "\<forall>u v x. v \<in> edge_v ` set [Edge 0 1] \<longrightarrow>
           GetColumn cm v = Inl NotAvailableError
           \<and> CostMatrix_at2 cm u v = Inl NotAvailableError
           \<and> CostMatrix_at cm (Edge u v) = Inl NotAvailableError
           \<and> CostMatrix_assign cm (Edge u v) x = Inl NotAvailableError"
    "\<forall>u. u < ?N \<and> u \<notin> edge_u ` set [Edge 0 1] \<longrightarrow>
           condensed_index (edge_u ` set [Edge 0 1]) u < numRows (cost_matrix cm)
           \<and> map_of (row_mapping cm) u = Some (condensed_index (edge_u ` set [Edge 0 1]) u)
           \<and> GetCondensedRowNum cm u = Inr (condensed_index (edge_u ` set [Edge 0 1]) u)
           \<and> GetRow cm u = Inr (CostRow (condensed_index (edge_u ` set [Edge 0 1]) u))"
    "\<forall>v. v < ?N \<and> v \<notin> edge_v ` set [Edge 0 1] \<longrightarrow>
           condensed_index (edge_v ` set [Edge 0 1]) v < numColumns (cost_matrix cm)
           \<and> map_of (column_mapping cm) v = Some (condensed_index (edge_v ` set [Edge 0 1]) v)
           \<and> GetCondensedColumnNum cm v = Inr (condensed_index (edge_v ` set [Edge 0 1]) v)
           \<and> GetColumn cm v = Inr (CostColumn (condensed_index (edge_v ` set [Edge 0 1]) v))"
    "\<forall>u v x. u < ?N \<and> u \<notin> edge_u ` set [Edge 0 1]
               \<and> v < ?N \<and> v \<notin> edge_v ` set [Edge 0 1] \<longrightarrow>
           CostMatrix_at2 cm u v =
             Inr (entries (cost_matrix cm)
                    (condensed_index (edge_u ` set [Edge 0 1]) u,
                     condensed_index (edge_v ` set [Edge 0 1]) v))
           \<and> CostMatrix_at cm (Edge u v) =
             Inr (entries (cost_matrix cm)
                    (condensed_index (edge_u ` set [Edge 0 1]) u,
                     condensed_index (edge_v ` set [Edge 0 1]) v))
           \<and> entries (cost_matrix cm)
                    (condensed_index (edge_u ` set [Edge 0 1]) u,
                     condensed_index (edge_v ` set [Edge 0 1]) v) =
               (if Edge u v \<in> set []
                then SetInfinite (CostMatrixInteger_ctor (graph_cost scenario_graph u v) (Edge u v))
                else CostMatrixInteger_ctor (graph_cost scenario_graph u v) (Edge u v))
           \<and> CostMatrix_assign cm (Edge u v) x =
             Inr (cm\<lparr>cost_matrix := (cost_matrix cm)\<lparr>entries := (entries (cost_matrix cm))
                    ((condensed_index (edge_u ` set [Edge 0 1]) u,
                      condensed_index (edge_v ` set [Edge 0 1]) v) := x)\<rparr>\<rparr>)"
    by (elim exE conjE) (rule that; assumption)
  have 1: "GetRow cm 0 = Inl NotAvailableError" "CostMatrix_at2 cm 0 2 = Inl NotAvailableError"
    using f(2) by simp_all
  have 2: "GetColumn cm 1 = Inl NotAvailableError"
    "CostMatrix_at cm (Edge 2 1) = Inl NotAvailableError"
    using f(3) by simp_all
  have ri: "condensed_index (edge_u ` set [Edge 0 1]) 2 = 1"
    and ci: "condensed_index (edge_v ` set [Edge 0 1]) 3 = 2"
    by (simp_all add: condensed_index_def upt_rec numeral_2_eq_2 numeral_3_eq_3)
  have au: "(2::nat) < ?N \<and> 2 \<notin> edge_u ` set [Edge 0 1]"
    and av: "(3::nat) < ?N \<and> 3 \<notin> edge_v ` set [Edge 0 1]"
    by (simp_all add: scenario_graph_def)
  have r: "GetRow cm 2 = Inr (CostRow 1)"
    using f(4)[rule_format, OF au, unfolded ri] by simp
  have c: "GetColumn cm 3 = Inr (CostColumn 2)"
    using f(5)[rule_format, OF av, unfolded ci] by simp
  have cost: "graph_cost scenario_graph 2 3 = 30"
    by (simp add: scenario_graph_def scenario_costs_def)
  have "(2::nat) < ?N \<and> 2 \<notin> edge_u ` set [Edge 0 1]
               \<and> (3::nat) < ?N \<and> 3 \<notin> edge_v ` set [Edge 0 1]"
    using au av by simp
  from f(6)[rule_format, OF this, of default_cell, unfolded ri ci cost]
  have 3: "CostMatrix_at2 cm 2 3 = Inr (entries (cost_matrix cm) (1, 2))"
    and 4: "entries (cost_matrix cm) (1, 2) = CostMatrixInteger_ctor 30 (Edge 2 3)"
    by simp_all
  show ?thesis
    using f(1) 1 2 r c 3 4 by (intro exI[of _ cm]) simp
qed

section \<open>Reduction\<close>

subsection \<open>One view: the minimum and the subtraction\<close>

lemma cmi_minus_sub_cell: "cmi_minus c mn = sub_cell c (cmi_value mn)"
  by (simp add: cmi_minus_def sub_cell_def)

lemma vec_at_valid:
  "vec_valid m vec \<Longrightarrow> k < Size_vec m vec \<Longrightarrow> vec_at m vec k = Inr (vec_cell m vec k)"
  by (cases vec) (simp_all add: vec_valid_def vec_at_def Matrix_at_def vec_cell_def vec_pos_def)

lemma vec_set_valid:
  "vec_valid m vec \<Longrightarrow> k < Size_vec m vec \<Longrightarrow>
   vec_set m vec k x = Inr (m\<lparr>entries := (entries m)(vec_pos vec k := x)\<rparr>)"
  by (cases vec) (simp_all add: vec_valid_def vec_set_def Matrix_set_def vec_pos_def)

lemma vec_pos_inj: "vec_pos vec k = vec_pos vec k' \<longleftrightarrow> k = k'"
  by (cases vec) (auto simp: vec_pos_def)

lemma cmi_not_less_trans:
  "\<not> cmi_less b a \<Longrightarrow> \<not> cmi_less c b \<Longrightarrow> \<not> cmi_less c a"
  by (auto simp: cmi_less_def split: if_splits)

lemma cmi_not_less_refl: "\<not> cmi_less a a"
  by (simp add: cmi_less_def)

lemma cmi_less_imp_not_less: "cmi_less a b \<Longrightarrow> \<not> cmi_less b a"
  by (auto simp: cmi_less_def split: if_splits)

lemma min_element_loop_valid:
  assumes "vec_valid m vec" "last_it \<le> Size_vec m vec" "smallest < first_it"
    "first_it \<le> last_it"
    "\<forall>k < first_it. \<not> cmi_less (vec_cell m vec k) (vec_cell m vec smallest)"
  shows "\<exists>i < last_it. min_element_loop m vec first_it last_it smallest = Inr i
     \<and> (\<forall>k < last_it. \<not> cmi_less (vec_cell m vec k) (vec_cell m vec i))"
  using assms
proof (induction m vec first_it last_it smallest rule: min_element_loop.induct)
  case (1 m vec first_it last_it smallest)
  show ?case
  proof (cases "first_it < last_it")
    case False
    then have "first_it = last_it" using "1.prems" by simp
    then show ?thesis using "1.prems" by auto
  next
    case True
    let ?a = "vec_cell m vec first_it" and ?b = "vec_cell m vec smallest"
    let ?s = "if cmi_less ?a ?b then first_it else smallest"
    have va: "vec_at m vec first_it = Inr ?a"
      using "1.prems" True by (intro vec_at_valid) simp_all
    have vb: "vec_at m vec smallest = Inr ?b"
      using "1.prems" True by (intro vec_at_valid) simp_all
    have inv: "\<forall>k < Suc first_it. \<not> cmi_less (vec_cell m vec k) (vec_cell m vec ?s)"
    proof (intro allI impI)
      fix k assume k: "k < Suc first_it"
      show "\<not> cmi_less (vec_cell m vec k) (vec_cell m vec ?s)"
      proof (cases "cmi_less ?a ?b")
        case l: True
        show ?thesis
        proof (cases "k = first_it")
          case True
          then show ?thesis using l by (simp add: cmi_not_less_refl)
        next
          case False
          then have "k < first_it" using k by simp
          then have "\<not> cmi_less (vec_cell m vec k) ?b" using "1.prems"(5) by simp
          moreover have "\<not> cmi_less ?b ?a" using l by (rule cmi_less_imp_not_less)
          ultimately have "\<not> cmi_less (vec_cell m vec k) ?a"
            by (rule cmi_not_less_trans[rotated])
          then show ?thesis using l by simp
        qed
      next
        case nl: False
        show ?thesis
        proof (cases "k = first_it")
          case True
          then show ?thesis using nl by simp
        next
          case False
          then have "k < first_it" using k by simp
          then show ?thesis using "1.prems"(5) nl by simp
        qed
      qed
    qed
    have "\<exists>i < last_it. min_element_loop m vec (Suc first_it) last_it ?s = Inr i
      \<and> (\<forall>k < last_it. \<not> cmi_less (vec_cell m vec k) (vec_cell m vec i))"
      using "1.prems" True inv
      by (intro "1.IH"[OF True va vb]) auto
    then show ?thesis
      using True va vb
      by (simp del: min_element_loop.simps add: min_element_loop.simps[of m vec first_it])
  qed
qed

lemma min_element_valid:
  assumes "vec_valid m vec" "0 < Size_vec m vec"
  shows "\<exists>i < Size_vec m vec. min_element m vec 0 (Size_vec m vec) = Inr i
     \<and> (\<forall>k < Size_vec m vec. \<not> cmi_less (vec_cell m vec k) (vec_cell m vec i))"
proof -
  have "\<exists>i < Size_vec m vec. min_element_loop m vec (Suc 0) (Size_vec m vec) 0 = Inr i
     \<and> (\<forall>k < Size_vec m vec. \<not> cmi_less (vec_cell m vec k) (vec_cell m vec i))"
    using assms by (intro min_element_loop_valid) (auto simp: cmi_not_less_refl)
  then show ?thesis using assms(2) by (simp add: min_element_def)
qed

lemma min_element_empty: "Size_vec m vec = 0 \<Longrightarrow> min_element m vec 0 (Size_vec m vec) = Inr 0"
  by (simp add: min_element_def)

declare min_element_loop.simps [simp del]

declare for_each_subtract.simps [simp del]

declare reduce_rows.simps [simp del]

declare reduce_columns.simps [simp del]

lemma vec_valid_entries_update [simp]: "vec_valid (m\<lparr>entries := f\<rparr>) vec = vec_valid m vec"
  by (simp add: vec_valid_def split: CostVector.splits)

lemma Size_vec_entries_update [simp]: "Size_vec (m\<lparr>entries := f\<rparr>) vec = Size_vec m vec"
  by (cases vec) simp_all

lemma subtract_range_empty: "b \<le> a \<Longrightarrow> subtract_range m vec a b k = m"
  by (simp add: subtract_range_def)

lemma subtract_range_step:
  assumes "a < b"
  shows "subtract_range (m\<lparr>entries := (entries m)(vec_pos vec a := sub_cell (entries m (vec_pos vec a)) k)\<rparr>)
           vec (Suc a) b k = subtract_range m vec a b k"
proof -
  have notin: "vec_pos vec a \<notin> vec_pos vec ` {Suc a..<b}"
    by (auto simp: vec_pos_inj)
  have "{a..<b} = insert a {Suc a..<b}"
    using assms by auto
  then have split: "vec_pos vec ` {a..<b} = insert (vec_pos vec a) (vec_pos vec ` {Suc a..<b})"
    by simp
  show ?thesis
    unfolding subtract_range_def split
    using notin by (auto simp: fun_eq_iff)
qed

lemma for_each_subtract_valid:
  assumes "vec_valid m vec" "last_it \<le> Size_vec m vec"
  shows "for_each_subtract m vec first_it last_it mn =
           Inr (subtract_range m vec first_it last_it (cmi_value mn))"
  using assms
proof (induction m vec first_it last_it mn rule: for_each_subtract.induct)
  case (1 m vec first_it last_it mn)
  show ?case
  proof (cases "first_it < last_it")
    case False
    then show ?thesis
      by (simp add: subtract_range_empty for_each_subtract.simps[of m vec first_it])
  next
    case True
    let ?elt = "vec_cell m vec first_it"
    let ?m' = "m\<lparr>entries := (entries m)(vec_pos vec first_it := cmi_minus ?elt mn)\<rparr>"
    have va: "vec_at m vec first_it = Inr ?elt"
      using "1.prems" True by (intro vec_at_valid) simp_all
    have vs: "vec_set m vec first_it (cmi_minus ?elt mn) = Inr ?m'"
      using "1.prems" True by (intro vec_set_valid) simp_all
    have "for_each_subtract ?m' vec (Suc first_it) last_it mn =
           Inr (subtract_range ?m' vec (Suc first_it) last_it (cmi_value mn))"
      using "1.prems" by (intro "1.IH"[OF True va vs]) simp_all
    also have "subtract_range ?m' vec (Suc first_it) last_it (cmi_value mn) =
       subtract_range m vec first_it last_it (cmi_value mn)"
      using subtract_range_step[OF True, of m vec "cmi_value mn"]
      by (simp add: cmi_minus_sub_cell vec_cell_def)
    finally have rec: "for_each_subtract ?m' vec (Suc first_it) last_it mn =
           Inr (subtract_range m vec first_it last_it (cmi_value mn))" .
    show ?thesis
      by (subst for_each_subtract.simps) (simp only: True if_True va vs sum.case rec)
  qed
qed

lemma subtract_range_full: "subtract_range m vec 0 (Size_vec m vec) k = subtract_vec m vec k"
  by (simp add: subtract_range_def subtract_vec_def)

lemma for_each_subtract_full:
  assumes "vec_valid m vec"
  shows "for_each_subtract m vec 0 (Size_vec m vec) mn = Inr (subtract_vec m vec (cmi_value mn))"
  using for_each_subtract_valid[OF assms le_refl, of 0 mn]
  by (simp only: subtract_range_full)

lemma set_vec_finite_values:
  "set (vec_finite_values m vec) =
     {cmi_value (vec_cell m vec k) | k. k < Size_vec m vec \<and> \<not> cmi_infinite (vec_cell m vec k)}"
  by (auto simp: vec_finite_values_def)

lemma least_cell_value:
  assumes i: "i < Size_vec m vec"
    and least: "\<forall>k < Size_vec m vec. \<not> cmi_less (vec_cell m vec k) (vec_cell m vec i)"
    and fin: "vec_has_finite m vec"
  shows "\<not> cmi_infinite (vec_cell m vec i) \<and> cmi_value (vec_cell m vec i) = vec_minimum m vec"
proof -
  from fin obtain k where k: "k < Size_vec m vec" "\<not> cmi_infinite (vec_cell m vec k)"
    by (auto simp: vec_has_finite_def)
  have nf: "\<not> cmi_infinite (vec_cell m vec i)"
    using least k by (auto simp: cmi_less_def split: if_splits)
  have mem: "cmi_value (vec_cell m vec i) \<in> set (vec_finite_values m vec)"
    using i nf by (auto simp: set_vec_finite_values)
  have le: "\<forall>x \<in> set (vec_finite_values m vec). cmi_value (vec_cell m vec i) \<le> x"
    using least nf by (auto simp: set_vec_finite_values cmi_less_def split: if_splits)
  have "Min (set (vec_finite_values m vec)) = cmi_value (vec_cell m vec i)"
    using mem le by (intro Min_eqI) auto
  then show ?thesis using nf by (simp add: vec_minimum_def)
qed

lemma least_cell_infinite:
  assumes least: "\<forall>k < Size_vec m vec. \<not> cmi_less (vec_cell m vec k) (vec_cell m vec i)"
    and inf: "cmi_infinite (vec_cell m vec i)"
  shows "\<not> vec_has_finite m vec"
  using assms by (auto simp: vec_has_finite_def cmi_less_def split: if_splits)

lemma reduce_row_ok:
  assumes "row_num < numRows m" "vec_has_finite m (CostRow row_num)"
  shows "reduce_row m row_num =
     Inr (vec_minimum m (CostRow row_num),
          subtract_vec m (CostRow row_num) (vec_minimum m (CostRow row_num)))"
proof -
  let ?v = "CostRow row_num"
  have valid: "vec_valid m ?v" using assms(1) by (simp add: vec_valid_def)
  have pos: "0 < Size_vec m ?v" using assms(2) by (auto simp: vec_has_finite_def)
  from min_element_valid[OF valid pos] obtain i where i: "i < Size_vec m ?v"
    and mi: "min_element m ?v 0 (Size_vec m ?v) = Inr i"
    and least: "\<forall>k < Size_vec m ?v. \<not> cmi_less (vec_cell m ?v k) (vec_cell m ?v i)"
    by blast
  have at: "vec_at m ?v i = Inr (vec_cell m ?v i)" by (rule vec_at_valid[OF valid i])
  from least_cell_value[OF i least assms(2)]
  have nf: "\<not> cmi_infinite (vec_cell m ?v i)"
    and mv: "cmi_value (vec_cell m ?v i) = vec_minimum m ?v" by simp_all
  have fe: "for_each_subtract m ?v 0 (Size_vec m ?v) (vec_cell m ?v i) =
      Inr (subtract_vec m ?v (vec_minimum m ?v))"
    using for_each_subtract_full[OF valid, of "vec_cell m ?v i"]
    by (simp only: mv)
  show ?thesis
    unfolding reduce_row_def Let_def mi sum.case at fe
    using i nf mv by (simp add: IsInfinite_def)
qed

lemma reduce_column_ok:
  assumes "column_num < numColumns m" "vec_has_finite m (CostColumn column_num)"
  shows "reduce_column m column_num =
     Inr (vec_minimum m (CostColumn column_num),
          subtract_vec m (CostColumn column_num) (vec_minimum m (CostColumn column_num)))"
proof -
  let ?v = "CostColumn column_num"
  have valid: "vec_valid m ?v" using assms(1) by (simp add: vec_valid_def)
  have pos: "0 < Size_vec m ?v" using assms(2) by (auto simp: vec_has_finite_def)
  from min_element_valid[OF valid pos] obtain i where i: "i < Size_vec m ?v"
    and mi: "min_element m ?v 0 (Size_vec m ?v) = Inr i"
    and least: "\<forall>k < Size_vec m ?v. \<not> cmi_less (vec_cell m ?v k) (vec_cell m ?v i)"
    by blast
  have at: "vec_at m ?v i = Inr (vec_cell m ?v i)" by (rule vec_at_valid[OF valid i])
  from least_cell_value[OF i least assms(2)]
  have nf: "\<not> cmi_infinite (vec_cell m ?v i)"
    and mv: "cmi_value (vec_cell m ?v i) = vec_minimum m ?v" by simp_all
  have fe: "for_each_subtract m ?v 0 (Size_vec m ?v) (vec_cell m ?v i) =
      Inr (subtract_vec m ?v (vec_minimum m ?v))"
    using for_each_subtract_full[OF valid, of "vec_cell m ?v i"]
    by (simp only: mv)
  show ?thesis
    unfolding reduce_column_def Let_def mi sum.case at fe
    using i nf mv by (simp add: IsInfinite_def)
qed

lemma reduce_row_fails:
  assumes "row_num < numRows m" "\<not> vec_has_finite m (CostRow row_num)"
  shows "reduce_row m row_num = Inl AssertionFailed"
proof (cases "Size_vec m (CostRow row_num) = 0")
  case True
  then show ?thesis
    using min_element_empty[OF True] by (simp add: reduce_row_def Let_def)
next
  case False
  let ?v = "CostRow row_num"
  have valid: "vec_valid m ?v" using assms(1) by (simp add: vec_valid_def)
  from min_element_valid[OF valid] False obtain i where i: "i < Size_vec m ?v"
    and mi: "min_element m ?v 0 (Size_vec m ?v) = Inr i"
    by auto
  have at: "vec_at m ?v i = Inr (vec_cell m ?v i)" by (rule vec_at_valid[OF valid i])
  have "cmi_infinite (vec_cell m ?v i)"
    using assms(2) i by (auto simp: vec_has_finite_def)
  then show ?thesis
    unfolding reduce_row_def Let_def mi sum.case at
    using i by (simp add: IsInfinite_def)
qed

lemma reduce_column_fails:
  assumes "column_num < numColumns m" "0 < numRows m" "\<not> vec_has_finite m (CostColumn column_num)"
  shows "reduce_column m column_num = Inl AssertionFailed"
proof -
  let ?v = "CostColumn column_num"
  have valid: "vec_valid m ?v" using assms(1) by (simp add: vec_valid_def)
  from min_element_valid[OF valid] assms(2) obtain i where i: "i < Size_vec m ?v"
    and mi: "min_element m ?v 0 (Size_vec m ?v) = Inr i"
    by auto
  have at: "vec_at m ?v i = Inr (vec_cell m ?v i)" by (rule vec_at_valid[OF valid i])
  have "cmi_infinite (vec_cell m ?v i)"
    using assms(3) i by (auto simp: vec_has_finite_def)
  then show ?thesis
    unfolding reduce_column_def Let_def mi sum.case at
    by (simp add: IsInfinite_def)
qed

subsection \<open>The row loop and the column loop\<close>

lemma rows_done_0: "rows_done m 0 = m"
  by (simp add: rows_done_def)

lemma columns_done_0: "columns_done m 0 = m"
  by (simp add: columns_done_def)

lemma rows_done_dims [simp]:
  "numRows (rows_done m n) = numRows m" "numColumns (rows_done m n) = numColumns m"
  by (simp_all add: rows_done_def)

lemma columns_done_dims [simp]:
  "numRows (columns_done m n) = numRows m" "numColumns (columns_done m n) = numColumns m"
  by (simp_all add: columns_done_def)

lemma vec_cell_rows_done:
  "n \<le> r \<Longrightarrow> vec_cell (rows_done m n) (CostRow r) k = vec_cell m (CostRow r) k"
  by (simp add: vec_cell_def vec_pos_def rows_done_def)

lemma vec_cell_columns_done:
  "n \<le> c \<Longrightarrow> vec_cell (columns_done m n) (CostColumn c) k = vec_cell m (CostColumn c) k"
  by (simp add: vec_cell_def vec_pos_def columns_done_def)

lemma vec_minimum_cong:
  assumes "Size_vec m' vec = Size_vec m vec"
    "\<And>k. k < Size_vec m vec \<Longrightarrow> vec_cell m' vec k = vec_cell m vec k"
  shows "vec_minimum m' vec = vec_minimum m vec" "vec_has_finite m' vec = vec_has_finite m vec"
proof -
  have "map (vec_cell m' vec) [0..<Size_vec m' vec] = map (vec_cell m vec) [0..<Size_vec m vec]"
    using assms by simp
  then show "vec_minimum m' vec = vec_minimum m vec"
    by (simp add: vec_minimum_def vec_finite_values_def)
  show "vec_has_finite m' vec = vec_has_finite m vec"
    using assms by (auto simp: vec_has_finite_def)
qed

lemma rows_done_row:
  assumes "n \<le> r"
  shows "vec_minimum (rows_done m n) (CostRow r) = row_minimum m r"
    "vec_has_finite (rows_done m n) (CostRow r) = vec_has_finite m (CostRow r)"
  using vec_minimum_cong[of "rows_done m n" "CostRow r" m] assms
  by (simp_all add: vec_cell_rows_done row_minimum_def)

lemma columns_done_column:
  assumes "n \<le> c"
  shows "vec_minimum (columns_done m n) (CostColumn c) = column_minimum m c"
    "vec_has_finite (columns_done m n) (CostColumn c) = vec_has_finite m (CostColumn c)"
  using vec_minimum_cong[of "columns_done m n" "CostColumn c" m] assms
  by (simp_all add: vec_cell_columns_done column_minimum_def)

lemma row_positions: "vec_pos (CostRow n) ` {0..<C} = {(r, c). r = n \<and> c < C}"
  by (auto simp: vec_pos_def)

lemma column_positions: "vec_pos (CostColumn n) ` {0..<R} = {(r, c). c = n \<and> r < R}"
  by (auto simp: vec_pos_def)

lemma rows_done_step:
  "subtract_vec (rows_done m n) (CostRow n) (row_minimum m n) = rows_done m (Suc n)"
  by (auto simp: subtract_vec_def rows_done_def row_positions fun_eq_iff less_Suc_eq)

lemma columns_done_step:
  "subtract_vec (columns_done m n) (CostColumn n) (column_minimum m n) = columns_done m (Suc n)"
  by (auto simp: subtract_vec_def columns_done_def column_positions fun_eq_iff less_Suc_eq)

lemma int32_wrap_id: "- 2147483648 \<le> x \<Longrightarrow> x < 2147483648 \<Longrightarrow> int32_wrap x = x"
  by (simp add: int32_wrap_def)

lemma int32_wrap_0 [simp]: "int32_wrap 0 = 0"
  by (simp add: int32_wrap_def)

lemma int32_wrap_add_left: "int32_wrap (int32_wrap a + b) = int32_wrap (a + b)"
proof -
  have "((a + 2147483648) mod 4294967296 + b) mod 4294967296
          = (a + 2147483648 + b) mod (4294967296::int)"
    by (rule mod_add_left_eq)
  then show ?thesis by (simp add: int32_wrap_def algebra_simps)
qed

lemma int32_wrap_idem [simp]: "int32_wrap (int32_wrap a) = int32_wrap a"
  using int32_wrap_add_left[of a 0] by simp

lemma reduce_rows_result:
  assumes "Size \<le> numRows m" "n \<le> Size" "int32_wrap decremented = decremented"
  shows "reduce_rows Size n (rows_done m n) decremented =
     (if \<forall>r. n \<le> r \<and> r < Size \<longrightarrow> vec_has_finite m (CostRow r)
      then Inr (int32_wrap (decremented + (\<Sum>r = n..<Size. row_minimum m r)), rows_done m Size)
      else Inl AssertionFailed)"
  using assms
proof (induction "Size - n" arbitrary: n decremented)
  case 0
  then have "n = Size" by simp
  then show ?case using "0.prems"(3) by (auto simp: reduce_rows.simps[of Size Size])
next
  case (Suc d)
  then have lt: "n < Size" by simp
  then have nr: "n < numRows (rows_done m n)" using Suc.prems by simp
  show ?case
  proof (cases "vec_has_finite m (CostRow n)")
    case False
    then have "\<not> vec_has_finite (rows_done m n) (CostRow n)"
      by (simp add: rows_done_row)
    from reduce_row_fails[OF nr this] False lt show ?thesis
      by (auto simp: reduce_rows.simps[of Size n])
  next
    case True
    then have "vec_has_finite (rows_done m n) (CostRow n)"
      by (simp add: rows_done_row)
    from reduce_row_ok[OF nr this]
    have rr: "reduce_row (rows_done m n) n = Inr (row_minimum m n, rows_done m (Suc n))"
      by (simp add: rows_done_row rows_done_step)
    have ih: "reduce_rows Size (Suc n) (rows_done m (Suc n)) (int32_wrap (decremented + row_minimum m n)) =
      (if \<forall>r. Suc n \<le> r \<and> r < Size \<longrightarrow> vec_has_finite m (CostRow r)
       then Inr (int32_wrap (int32_wrap (decremented + row_minimum m n)
                   + (\<Sum>r = Suc n..<Size. row_minimum m r)),
                 rows_done m Size)
       else Inl AssertionFailed)"
      using Suc.hyps(2) Suc.prems lt by (intro Suc.hyps(1)) simp_all
    have all: "(\<forall>r. n \<le> r \<and> r < Size \<longrightarrow> vec_has_finite m (CostRow r)) =
       (\<forall>r. Suc n \<le> r \<and> r < Size \<longrightarrow> vec_has_finite m (CostRow r))"
      using True by (metis Suc_leD Suc_leI le_neq_implies_less)
    have sum: "(\<Sum>r = n..<Size. row_minimum m r) =
        row_minimum m n + (\<Sum>r = Suc n..<Size. row_minimum m r)"
      using lt by (simp add: sum.atLeast_Suc_lessThan)
    show ?thesis
      by (subst reduce_rows.simps)
         (simp only: lt if_True rr sum.case prod.case ih all sum add.assoc int32_wrap_add_left)
  qed
qed

lemma reduce_columns_result:
  assumes "Size \<le> numColumns m" "n \<le> Size" "0 < numRows m \<or> Size = 0"
    "int32_wrap decremented = decremented"
  shows "reduce_columns Size n (columns_done m n) decremented =
     (if \<forall>c. n \<le> c \<and> c < Size \<longrightarrow> vec_has_finite m (CostColumn c)
      then Inr (int32_wrap (decremented + (\<Sum>c = n..<Size. column_minimum m c)),
                columns_done m Size)
      else Inl AssertionFailed)"
  using assms
proof (induction "Size - n" arbitrary: n decremented)
  case 0
  then have "n = Size" by simp
  then show ?case using "0.prems"(4) by (auto simp: reduce_columns.simps[of Size Size])
next
  case (Suc d)
  then have lt: "n < Size" by simp
  then have nc: "n < numColumns (columns_done m n)" using Suc.prems by simp
  have pos: "0 < numRows (columns_done m n)" using Suc.prems lt by simp
  show ?case
  proof (cases "vec_has_finite m (CostColumn n)")
    case False
    then have "\<not> vec_has_finite (columns_done m n) (CostColumn n)"
      by (simp add: columns_done_column)
    from reduce_column_fails[OF nc pos this] False lt show ?thesis
      by (auto simp: reduce_columns.simps[of Size n])
  next
    case True
    then have "vec_has_finite (columns_done m n) (CostColumn n)"
      by (simp add: columns_done_column)
    from reduce_column_ok[OF nc this]
    have rr: "reduce_column (columns_done m n) n = Inr (column_minimum m n, columns_done m (Suc n))"
      by (simp add: columns_done_column columns_done_step)
    have ih: "reduce_columns Size (Suc n) (columns_done m (Suc n))
                (int32_wrap (decremented + column_minimum m n)) =
      (if \<forall>c. Suc n \<le> c \<and> c < Size \<longrightarrow> vec_has_finite m (CostColumn c)
       then Inr (int32_wrap (int32_wrap (decremented + column_minimum m n)
                   + (\<Sum>c = Suc n..<Size. column_minimum m c)),
                 columns_done m Size)
       else Inl AssertionFailed)"
      using Suc.hyps(2) Suc.prems lt by (intro Suc.hyps(1)) simp_all
    have all: "(\<forall>c. n \<le> c \<and> c < Size \<longrightarrow> vec_has_finite m (CostColumn c)) =
       (\<forall>c. Suc n \<le> c \<and> c < Size \<longrightarrow> vec_has_finite m (CostColumn c))"
      using True by (metis Suc_leD Suc_leI le_neq_implies_less)
    have sum: "(\<Sum>c = n..<Size. column_minimum m c) =
        column_minimum m n + (\<Sum>c = Suc n..<Size. column_minimum m c)"
      using lt by (simp add: sum.atLeast_Suc_lessThan)
    show ?thesis
      by (subst reduce_columns.simps)
         (simp only: lt if_True rr sum.case prod.case ih all sum add.assoc int32_wrap_add_left)
  qed
qed

subsection \<open>The whole reduction\<close>

lemma sub_cell_infinite [simp]: "cmi_infinite (sub_cell c k) = cmi_infinite c"
  by (simp add: sub_cell_def)

lemma sub_cell_edge [simp]: "cmi_edge (sub_cell c k) = cmi_edge c"
  by (simp add: sub_cell_def)

lemma subtract_row_minima_dims [simp]:
  "numRows (subtract_row_minima m) = numRows m" "numColumns (subtract_row_minima m) = numColumns m"
  by (simp_all add: subtract_row_minima_def)

lemma subtract_column_minima_dims [simp]:
  "numRows (subtract_column_minima m) = numRows m"
  "numColumns (subtract_column_minima m) = numColumns m"
  by (simp_all add: subtract_column_minima_def)

lemma entries_subtract_row_minima:
  "entries (subtract_row_minima m) (r, c) =
     (if r < numRows m \<and> c < numColumns m
      then sub_cell (entries m (r, c)) (row_minimum m r) else entries m (r, c))"
  by (simp add: subtract_row_minima_def rows_done_def)

lemma entries_subtract_column_minima:
  "entries (subtract_column_minima m) (r, c) =
     (if r < numRows m \<and> c < numColumns m
      then sub_cell (entries m (r, c)) (column_minimum m c) else entries m (r, c))"
  by (auto simp: subtract_column_minima_def columns_done_def)

lemma infinite_subtract_row_minima [simp]:
  "cmi_infinite (entries (subtract_row_minima m) p) = cmi_infinite (entries m p)"
  by (cases p) (simp add: entries_subtract_row_minima)

lemma infinite_subtract_column_minima [simp]:
  "cmi_infinite (entries (subtract_column_minima m) p) = cmi_infinite (entries m p)"
  by (cases p) (simp add: entries_subtract_column_minima)

lemma vec_has_finite_subtract_row_minima [simp]:
  "vec_has_finite (subtract_row_minima m) vec = vec_has_finite m vec"
  by (cases vec) (simp_all add: vec_has_finite_def vec_cell_def)

lemma vec_has_finite_subtract_column_minima [simp]:
  "vec_has_finite (subtract_column_minima m) vec = vec_has_finite m vec"
  by (cases vec) (simp_all add: vec_has_finite_def vec_cell_def)

lemma vec_has_finite_rows_done [simp]:
  "vec_has_finite (rows_done m n) vec = vec_has_finite m vec"
  by (cases vec) (auto simp: vec_has_finite_def vec_cell_def vec_pos_def rows_done_def)

lemma vec_has_finite_columns_done [simp]:
  "vec_has_finite (columns_done m n) vec = vec_has_finite m vec"
  by (cases vec) (auto simp: vec_has_finite_def vec_cell_def vec_pos_def columns_done_def)

lemma ReduceMatrix_partial:
  assumes "Size \<le> numRows (cost_matrix cm)" "Size \<le> numColumns (cost_matrix cm)"
  shows "ReduceMatrix Size cm =
     (if (\<forall>r < Size. vec_has_finite (cost_matrix cm) (CostRow r))
         \<and> (\<forall>c < Size. vec_has_finite (cost_matrix cm) (CostColumn c))
      then Inr (int32_wrap ((\<Sum>r = 0..<Size. row_minimum (cost_matrix cm) r)
                  + (\<Sum>c = 0..<Size. column_minimum (rows_done (cost_matrix cm) Size) c)),
                cm\<lparr>cost_matrix := columns_done (rows_done (cost_matrix cm) Size) Size\<rparr>)
      else Inl AssertionFailed)"
proof -
  let ?m = "cost_matrix cm"
  let ?m1 = "rows_done ?m Size"
  let ?d = "int32_wrap (\<Sum>r = 0..<Size. row_minimum ?m r)"
  have le: "Size \<le> numRows ?m" "Size \<le> numColumns ?m1" "(0::nat) \<le> Size"
    and pos: "0 < numRows ?m1 \<or> Size = 0"
    using assms by auto
  have rows: "reduce_rows Size 0 ?m 0 =
     (if \<forall>r < Size. vec_has_finite ?m (CostRow r) then Inr (?d, ?m1) else Inl AssertionFailed)"
    using reduce_rows_result[OF le(1) le(3), of 0] by (simp add: rows_done_0)
  have cols: "reduce_columns Size 0 ?m1 ?d =
     (if \<forall>c < Size. vec_has_finite ?m (CostColumn c)
      then Inr (int32_wrap (?d + (\<Sum>c = 0..<Size. column_minimum ?m1 c)), columns_done ?m1 Size)
      else Inl AssertionFailed)"
    using reduce_columns_result[OF le(2) le(3) pos, of ?d] by (simp add: columns_done_0)
  show ?thesis
  proof (cases "\<forall>r < Size. vec_has_finite ?m (CostRow r)")
    case False
    have "reduce_rows Size 0 ?m 0 = Inl AssertionFailed"
      using rows False by simp
    then show ?thesis using False by (simp add: ReduceMatrix_def)
  next
    case True
    then have r: "reduce_rows Size 0 ?m 0 = Inr (?d, ?m1)"
      using rows by simp
    show ?thesis
    proof (cases "\<forall>c < Size. vec_has_finite ?m (CostColumn c)")
      case c: False
      have "reduce_columns Size 0 ?m1 ?d = Inl AssertionFailed"
        using cols c by simp
      then show ?thesis using c r by (simp add: ReduceMatrix_def)
    next
      case c: True
      have "reduce_columns Size 0 ?m1 ?d =
         Inr (int32_wrap (?d + (\<Sum>c = 0..<Size. column_minimum ?m1 c)), columns_done ?m1 Size)"
        using cols c by simp
      then show ?thesis
        using True c r by (simp add: ReduceMatrix_def int32_wrap_add_left)
    qed
  qed
qed

lemma ReduceMatrix_result:
  assumes "Size = numRows (cost_matrix cm)" "Size = numColumns (cost_matrix cm)"
  shows "ReduceMatrix Size cm =
     (if reducible (cost_matrix cm)
      then Inr (int32_wrap (reduction_total (cost_matrix cm)),
                cm\<lparr>cost_matrix := subtract_column_minima (subtract_row_minima (cost_matrix cm))\<rparr>)
      else Inl AssertionFailed)"
proof -
  have le: "Size \<le> numRows (cost_matrix cm)" "Size \<le> numColumns (cost_matrix cm)"
    using assms by simp_all
  have red: "reducible (cost_matrix cm) =
     ((\<forall>r < Size. vec_has_finite (cost_matrix cm) (CostRow r))
         \<and> (\<forall>c < Size. vec_has_finite (cost_matrix cm) (CostColumn c)))"
    using assms by (auto simp: reducible_def)
  show ?thesis
    unfolding ReduceMatrix_partial[OF le] red
    using assms
    by (simp add: reduction_total_def subtract_row_minima_def subtract_column_minima_def)
qed

subsection \<open>The reduced matrix\<close>

lemma vec_minimum_attained:
  assumes "vec_has_finite m vec"
  shows "\<exists>k < Size_vec m vec. \<not> cmi_infinite (vec_cell m vec k)
           \<and> cmi_value (vec_cell m vec k) = vec_minimum m vec"
proof -
  have ne: "set (vec_finite_values m vec) \<noteq> {}"
    using assms by (auto simp: set_vec_finite_values vec_has_finite_def)
  have "Min (set (vec_finite_values m vec)) \<in> set (vec_finite_values m vec)"
    using ne by (intro Min_in) simp_all
  then show ?thesis
    unfolding vec_minimum_def set_vec_finite_values by auto
qed

lemma vec_minimum_le:
  assumes "k < Size_vec m vec" "\<not> cmi_infinite (vec_cell m vec k)"
  shows "vec_minimum m vec \<le> cmi_value (vec_cell m vec k)"
proof -
  have "cmi_value (vec_cell m vec k) \<in> set (vec_finite_values m vec)"
    using assms by (auto simp: set_vec_finite_values)
  then show ?thesis
    unfolding vec_minimum_def by (intro Min_le) simp_all
qed

lemma row_minimum_attained:
  assumes "vec_has_finite m (CostRow r)"
  shows "\<exists>c < numColumns m. \<not> cmi_infinite (entries m (r, c))
           \<and> cmi_value (entries m (r, c)) = row_minimum m r"
  using vec_minimum_attained[OF assms]
  by (simp add: row_minimum_def vec_cell_def vec_pos_def)

lemma row_minimum_le:
  assumes "c < numColumns m" "\<not> cmi_infinite (entries m (r, c))"
  shows "row_minimum m r \<le> cmi_value (entries m (r, c))"
  using vec_minimum_le[of c m "CostRow r"] assms
  by (simp add: row_minimum_def vec_cell_def vec_pos_def)

lemma column_minimum_attained:
  assumes "vec_has_finite m (CostColumn c)"
  shows "\<exists>r < numRows m. \<not> cmi_infinite (entries m (r, c))
           \<and> cmi_value (entries m (r, c)) = column_minimum m c"
  using vec_minimum_attained[OF assms]
  by (simp add: column_minimum_def vec_cell_def vec_pos_def)

lemma column_minimum_le:
  assumes "r < numRows m" "\<not> cmi_infinite (entries m (r, c))"
  shows "column_minimum m c \<le> cmi_value (entries m (r, c))"
  using vec_minimum_le[of r m "CostColumn c"] assms
  by (simp add: column_minimum_def vec_cell_def vec_pos_def)

lemma value_sub_cell: "\<not> cmi_infinite c \<Longrightarrow> cmi_value (sub_cell c k) = cmi_value c - k"
  by (simp add: sub_cell_def)

lemma row_reduced_nonneg:
  assumes "r < numRows m" "c < numColumns m"
    "\<not> cmi_infinite (entries (subtract_row_minima m) (r, c))"
  shows "0 \<le> cmi_value (entries (subtract_row_minima m) (r, c))"
  using assms row_minimum_le[of c m r]
  by (simp add: entries_subtract_row_minima value_sub_cell)

lemma row_reduced_zero:
  assumes "r < numRows m" "vec_has_finite m (CostRow r)"
  shows "\<exists>c < numColumns m. zero_cell (subtract_row_minima m) (r, c)"
proof -
  from row_minimum_attained[OF assms(2)] obtain c where
    c: "c < numColumns m" "\<not> cmi_infinite (entries m (r, c))"
       "cmi_value (entries m (r, c)) = row_minimum m r" by blast
  then have "zero_cell (subtract_row_minima m) (r, c)"
    using assms(1) by (simp add: zero_cell_def entries_subtract_row_minima value_sub_cell)
  then show ?thesis using c(1) by blast
qed

lemma reduced_normalised:
  assumes "reducible m"
  shows "normalised (subtract_column_minima (subtract_row_minima m))"
proof -
  let ?m1 = "subtract_row_minima m" and ?m2 = "subtract_column_minima (subtract_row_minima m)"
  have fr: "\<forall>r < numRows m. vec_has_finite m (CostRow r)"
    and fc: "\<forall>c < numColumns m. vec_has_finite ?m1 (CostColumn c)"
    using assms by (simp_all add: reducible_def)
  have cmin0: "0 \<le> column_minimum ?m1 c" if "c < numColumns m" for c
  proof -
    from column_minimum_attained[of ?m1 c] fc that obtain r where
      "r < numRows m" "\<not> cmi_infinite (entries ?m1 (r, c))"
      "cmi_value (entries ?m1 (r, c)) = column_minimum ?m1 c" by auto
    then show ?thesis using row_reduced_nonneg[of r m c] that by simp
  qed
  have nonneg: "0 \<le> cmi_value (entries ?m2 (r, c))"
    if "r < numRows m" "c < numColumns m" "\<not> cmi_infinite (entries ?m2 (r, c))" for r c
    using that column_minimum_le[of r ?m1 c]
    by (simp add: entries_subtract_column_minima value_sub_cell)
  have colzero: "\<exists>r < numRows m. zero_cell ?m2 (r, c)" if "c < numColumns m" for c
  proof -
    from column_minimum_attained[of ?m1 c] fc that obtain r where
      r: "r < numRows m" "\<not> cmi_infinite (entries ?m1 (r, c))"
      "cmi_value (entries ?m1 (r, c)) = column_minimum ?m1 c" by auto
    then have "zero_cell ?m2 (r, c)"
      using that by (simp add: zero_cell_def entries_subtract_column_minima value_sub_cell)
    then show ?thesis using r(1) by blast
  qed
  have rowzero: "\<exists>c < numColumns m. zero_cell ?m2 (r, c)" if "r < numRows m" for r
  proof -
    from row_reduced_zero[OF that] fr that obtain c where
      c: "c < numColumns m" "zero_cell ?m1 (r, c)" by blast
    then have "column_minimum ?m1 c \<le> 0"
      using column_minimum_le[of r ?m1 c] that by (simp add: zero_cell_def)
    then have "column_minimum ?m1 c = 0" using cmin0[OF c(1)] by simp
    then have "zero_cell ?m2 (r, c)"
      using c that by (simp add: zero_cell_def entries_subtract_column_minima value_sub_cell)
    then show ?thesis using c(1) by blast
  qed
  show ?thesis
    unfolding normalised_def using nonneg colzero rowzero by simp
qed

lemma normalised_minima:
  assumes "normalised m"
  shows "r < numRows m \<Longrightarrow> row_minimum m r = 0" "c < numColumns m \<Longrightarrow> column_minimum m c = 0"
    "reducible m"
proof -
  have nn: "\<And>r c. r < numRows m \<Longrightarrow> c < numColumns m \<Longrightarrow>
          \<not> cmi_infinite (entries m (r, c)) \<Longrightarrow> 0 \<le> cmi_value (entries m (r, c))"
    and rz: "\<And>r. r < numRows m \<Longrightarrow> \<exists>c < numColumns m. zero_cell m (r, c)"
    and cz: "\<And>c. c < numColumns m \<Longrightarrow> \<exists>r < numRows m. zero_cell m (r, c)"
    using assms by (auto simp: normalised_def)
  have hr: "vec_has_finite m (CostRow r)" if "r < numRows m" for r
    using rz[OF that] by (auto simp: vec_has_finite_def vec_cell_def vec_pos_def zero_cell_def)
  have hc: "vec_has_finite m (CostColumn c)" if "c < numColumns m" for c
    using cz[OF that] by (auto simp: vec_has_finite_def vec_cell_def vec_pos_def zero_cell_def)
  show "reducible m" using hr hc by (simp add: reducible_def)
  show "row_minimum m r = 0" if r: "r < numRows m"
  proof -
    from rz[OF r] obtain c where "c < numColumns m" "zero_cell m (r, c)" by blast
    then have "row_minimum m r \<le> 0"
      using row_minimum_le[of c m r] by (simp add: zero_cell_def)
    moreover from row_minimum_attained[OF hr[OF r]] have "0 \<le> row_minimum m r"
      using nn[OF r] by (metis)
    ultimately show ?thesis by simp
  qed
  show "column_minimum m c = 0" if c: "c < numColumns m"
  proof -
    from cz[OF c] obtain r where "r < numRows m" "zero_cell m (r, c)" by blast
    then have "column_minimum m c \<le> 0"
      using column_minimum_le[of r m c] by (simp add: zero_cell_def)
    moreover from column_minimum_attained[OF hc[OF c]] have "0 \<le> column_minimum m c"
      using nn[OF _ c] by (metis)
    ultimately show ?thesis by simp
  qed
qed

lemma sub_cell_0 [simp]: "sub_cell c 0 = c"
  by (simp add: sub_cell_def)

lemma normalised_fixed:
  assumes "normalised m"
  shows "subtract_row_minima m = m" "subtract_column_minima m = m" "reduction_total m = 0"
proof -
  have e1: "entries (subtract_row_minima m) = entries m"
    using normalised_minima(1)[OF assms]
    by (auto simp: fun_eq_iff entries_subtract_row_minima)
  show r: "subtract_row_minima m = m"
    using e1 by (simp add: subtract_row_minima_def rows_done_def)
  have e2: "entries (subtract_column_minima m) = entries m"
    using normalised_minima(2)[OF assms]
    by (auto simp: fun_eq_iff entries_subtract_column_minima)
  show "subtract_column_minima m = m"
    using e2 by (simp add: subtract_column_minima_def columns_done_def)
  show "reduction_total m = 0"
    using normalised_minima(1,2)[OF assms] by (simp add: reduction_total_def r)
qed

subsection \<open>The examples\<close>

lemma example_dims:
  "numRows (cost_matrix example_cm) = 2" "numColumns (cost_matrix example_cm) = 2"
  by (simp_all add: example_cm_def example_matrix_def)

lemma example_reducible: "reducible (cost_matrix example_cm)"
  by (simp add: reducible_def vec_has_finite_def vec_cell_def vec_pos_def example_cm_def
      example_matrix_def numeral_2_eq_2 All_less_Suc Ex_less_Suc)

lemma example_row_minima:
  "row_minimum example_matrix 0 = 4" "row_minimum example_matrix 1 = 6"
  by code_simp+

lemma example_column_minima:
  "column_minimum (subtract_row_minima example_matrix) 0 = 0"
  "column_minimum (subtract_row_minima example_matrix) 1 = 5"
  by code_simp+

lemma example_total: "reduction_total example_matrix = 15"
  by code_simp

lemma example_reduced_cells:
  "map (\<lambda>p. cmi_value (entries (subtract_column_minima (subtract_row_minima example_matrix)) p))
     [(0, 0), (0, 1), (1, 0)] = [0, 0, 0]"
  "cmi_infinite (entries (subtract_column_minima (subtract_row_minima example_matrix)) (1, 1))"
  by code_simp+

lemma blocked_not_reducible: "\<not> reducible (cost_matrix blocked_cm)"
  by (auto simp: reducible_def vec_has_finite_def vec_cell_def vec_pos_def blocked_cm_def
      example_matrix_def SetInfinite_def numeral_2_eq_2 All_less_Suc Ex_less_Suc)

subsection \<open>Infinite cells\<close>

lemma same_infinite_refl: "same_infinite m m"
  by (simp add: same_infinite_def)

lemma same_infinite_trans: "same_infinite a b \<Longrightarrow> same_infinite b c \<Longrightarrow> same_infinite a c"
  by (simp add: same_infinite_def)

lemma cmi_minus_infinite [simp]: "cmi_infinite (cmi_minus c mn) = cmi_infinite c"
  by (simp add: cmi_minus_def)

lemma cmi_minus_edge [simp]: "cmi_edge (cmi_minus c mn) = cmi_edge c"
  by (simp add: cmi_minus_def)

lemma vec_step_same_infinite:
  assumes "vec_at m vec k = Inr elt" "vec_set m vec k (cmi_minus elt mn) = Inr m'"
  shows "same_infinite m m'"
  using assms
  by (auto simp: vec_at_def vec_set_def Matrix_at_def Matrix_set_def same_infinite_def
      split: if_splits)

lemma for_each_subtract_same_infinite:
  "for_each_subtract m vec first_it last_it mn = Inr m' \<Longrightarrow> same_infinite m m'"
proof (induction m vec first_it last_it mn rule: for_each_subtract.induct)
  case (1 m vec first_it last_it mn)
  show ?case
  proof (cases "first_it < last_it")
    case False
    then show ?thesis
      using "1.prems" by (simp add: for_each_subtract.simps[of m vec first_it] same_infinite_refl)
  next
    case True
    from "1.prems" True obtain elt m1 where
      a: "vec_at m vec first_it = Inr elt"
      and s: "vec_set m vec first_it (cmi_minus elt mn) = Inr m1"
      and r: "for_each_subtract m1 vec (Suc first_it) last_it mn = Inr m'"
      by (auto simp: for_each_subtract.simps[of m vec first_it] split: sum.splits)
    have "same_infinite m m1" by (rule vec_step_same_infinite[OF a s])
    moreover have "same_infinite m1 m'" by (rule "1.IH"[OF True a s r])
    ultimately show ?thesis by (rule same_infinite_trans)
  qed
qed

lemma reduce_row_same_infinite:
  "reduce_row m row_num = Inr (x, m') \<Longrightarrow> same_infinite m m'"
  by (auto simp: reduce_row_def Let_def split: sum.splits if_splits
      dest: for_each_subtract_same_infinite)

lemma reduce_column_same_infinite:
  "reduce_column m column_num = Inr (x, m') \<Longrightarrow> same_infinite m m'"
  by (auto simp: reduce_column_def Let_def split: sum.splits if_splits
      dest: for_each_subtract_same_infinite)

lemma reduce_rows_same_infinite:
  "reduce_rows Size row_num m decremented = Inr (x, m') \<Longrightarrow> same_infinite m m'"
proof (induction Size row_num m decremented rule: reduce_rows.induct)
  case (1 Size row_num m decremented)
  show ?case
  proof (cases "row_num < Size")
    case False
    then show ?thesis
      using "1.prems" by (simp add: reduce_rows.simps[of Size row_num] same_infinite_refl)
  next
    case True
    from "1.prems" True obtain mn m1 where
      a: "reduce_row m row_num = Inr (mn, m1)"
      and r: "reduce_rows Size (Suc row_num) m1 (int32_wrap (decremented + mn)) = Inr (x, m')"
      by (auto simp: reduce_rows.simps[of Size row_num] split: sum.splits)
    have "same_infinite m m1" by (rule reduce_row_same_infinite[OF a])
    moreover have "same_infinite m1 m'" by (rule "1.IH"[OF True a refl r])
    ultimately show ?thesis by (rule same_infinite_trans)
  qed
qed

lemma reduce_columns_same_infinite:
  "reduce_columns Size column_num m decremented = Inr (x, m') \<Longrightarrow> same_infinite m m'"
proof (induction Size column_num m decremented rule: reduce_columns.induct)
  case (1 Size column_num m decremented)
  show ?case
  proof (cases "column_num < Size")
    case False
    then show ?thesis
      using "1.prems" by (simp add: reduce_columns.simps[of Size column_num] same_infinite_refl)
  next
    case True
    from "1.prems" True obtain mn m1 where
      a: "reduce_column m column_num = Inr (mn, m1)"
      and r: "reduce_columns Size (Suc column_num) m1 (int32_wrap (decremented + mn)) = Inr (x, m')"
      by (auto simp: reduce_columns.simps[of Size column_num] split: sum.splits)
    have "same_infinite m m1" by (rule reduce_column_same_infinite[OF a])
    moreover have "same_infinite m1 m'" by (rule "1.IH"[OF True a refl r])
    ultimately show ?thesis by (rule same_infinite_trans)
  qed
qed

lemma ReduceMatrix_same_infinite:
  assumes "ReduceMatrix Size cm = Inr (decremented, cm')"
  shows "same_infinite (cost_matrix cm) (cost_matrix cm')"
    "row_mapping cm' = row_mapping cm" "column_mapping cm' = column_mapping cm"
proof -
  from assms obtain d m1 m2 where
    a: "reduce_rows Size 0 (cost_matrix cm) 0 = Inr (d, m1)"
    and b: "reduce_columns Size 0 m1 d = Inr (decremented, m2)"
    and c: "cm' = cm\<lparr>cost_matrix := m2\<rparr>"
    by (auto simp: ReduceMatrix_def split: sum.splits)
  show "same_infinite (cost_matrix cm) (cost_matrix cm')"
    using same_infinite_trans[OF reduce_rows_same_infinite[OF a] reduce_columns_same_infinite[OF b]] c
    by simp
  show "row_mapping cm' = row_mapping cm" "column_mapping cm' = column_mapping cm"
    using c by simp_all
qed

lemma ReduceMatrix_times_same_infinite:
  "ReduceMatrix_times Size n cm = Inr cm' \<Longrightarrow>
   same_infinite (cost_matrix cm) (cost_matrix cm')
   \<and> row_mapping cm' = row_mapping cm \<and> column_mapping cm' = column_mapping cm"
proof (induction n arbitrary: cm)
  case 0
  then show ?case by (simp add: same_infinite_refl)
next
  case (Suc n)
  from Suc.prems obtain decremented cm1 where
    a: "ReduceMatrix Size cm = Inr (decremented, cm1)" and r: "ReduceMatrix_times Size n cm1 = Inr cm'"
    by (auto split: sum.splits)
  show ?case
    using ReduceMatrix_same_infinite[OF a] Suc.IH[OF r] same_infinite_trans by auto
qed

lemma CostMatrix_at_same_infinite:
  assumes "same_infinite (cost_matrix cm) (cost_matrix cm')"
    "row_mapping cm' = row_mapping cm" "column_mapping cm' = column_mapping cm"
    "CostMatrix_at cm e = Inr c"
  shows "\<exists>c'. CostMatrix_at cm' e = Inr c' \<and> IsInfinite c' = IsInfinite c
           \<and> cmi_edge c' = cmi_edge c"
  using assms
  by (auto simp: CostMatrix_at_def GetCondensedRowNum_def GetCondensedColumnNum_def
      IsRowAvailable_def IsColumnAvailable_def Matrix_at_def same_infinite_def IsInfinite_def
      split: sum.splits if_splits option.splits)

lemma min_element_infinite_only_if_all:
  assumes mi: "min_element m vec 0 (Size_vec m vec) = Inr i"
    and at: "vec_at m vec i = Inr mn" and inf: "IsInfinite mn"
  shows "\<forall>k < Size_vec m vec. \<exists>x. vec_at m vec k = Inr x \<and> IsInfinite x"
proof -
  have v: "vec_valid m vec" and i: "i < Size_vec m vec"
    using at by (cases vec; simp add: vec_at_def Matrix_at_def vec_valid_def split: if_splits)+
  then have pos: "0 < Size_vec m vec" by simp
  from min_element_valid[OF v pos] mi have
    least: "\<forall>k < Size_vec m vec. \<not> cmi_less (vec_cell m vec k) (vec_cell m vec i)"
    by auto
  have "cmi_infinite (vec_cell m vec i)"
    using at inf vec_at_valid[OF v i] by (simp add: IsInfinite_def)
  then have "\<not> vec_has_finite m vec" by (rule least_cell_infinite[OF least])
  then show ?thesis
    using vec_at_valid[OF v] by (simp add: vec_has_finite_def IsInfinite_def)
qed

lemma parse_included_Inr_in_range:
  "parse_included es ra ca = Inr res \<Longrightarrow>
   \<forall>e \<in> set es. edge_u e < length ra \<and> edge_v e < length ca"
proof (induction es arbitrary: ra ca)
  case Nil
  then show ?case by simp
next
  case (Cons a es)
  from Cons.prems have h: "edge_u a < length ra \<and> edge_v a < length ca"
    and r: "parse_included es (ra[edge_u a := False]) (ca[edge_v a := False]) = Inr res"
    by (auto split: if_splits)
  from Cons.IH[OF r] show ?case using h by simp
qed

lemma CostMatrix_ctor_Inr_in_range:
  assumes "CostMatrix_ctor graph include exclude = Inr cm"
  shows "\<forall>e \<in> set include. edge_u e < GetNumVertices graph \<and> edge_v e < GetNumVertices graph"
proof -
  from assms obtain res where
    "parse_included include (replicate (GetNumVertices graph) True)
       (replicate (GetNumVertices graph) True) = Inr res"
    by (auto simp: CostMatrix_ctor_def split: sum.splits)
  from parse_included_Inr_in_range[OF this] show ?thesis by simp
qed

lemma excluded_cell_infinite:
  assumes c: "CostMatrix_ctor graph include exclude = Inr cm"
    and e: "e \<in> set exclude" and a: "both_available (GetNumVertices graph) include e"
  shows "\<exists>c. CostMatrix_at cm e = Inr c \<and> IsInfinite c"
proof -
  from CostMatrix_ctor_result[OF CostMatrix_ctor_Inr_in_range[OF c], of exclude] c
  have "CostMatrix_at cm e =
          (if edge_u e \<in> set (available_rows (GetNumVertices graph) include)
              \<and> edge_v e \<in> set (available_columns (GetNumVertices graph) include)
           then Inr (if e \<in> set exclude
                     then SetInfinite (CostMatrixInteger_ctor (graph_cost graph (edge_u e) (edge_v e)) e)
                     else CostMatrixInteger_ctor (graph_cost graph (edge_u e) (edge_v e)) e)
           else Inl NotAvailableError)"
    by auto
  then show ?thesis
    using e a
    by (simp add: both_available_def set_available_rows set_available_columns
        IsInfinite_def SetInfinite_def)
qed

text \<open>
  The condensed matrix of a partial tour, whose include edges have distinct origins and
  distinct destinations, is square: the matrices the reduction is for.
\<close>

lemma constructed_matrix_square:
  assumes "CostMatrix_ctor graph include exclude = Inr cm"
    and "distinct (map edge_u include)" "distinct (map edge_v include)"
  shows "numRows (cost_matrix cm) = numColumns (cost_matrix cm)"
proof -
  let ?N = "GetNumVertices graph"
  have inr: "\<forall>e \<in> set include. edge_u e < ?N \<and> edge_v e < ?N"
    by (rule CostMatrix_ctor_Inr_in_range[OF assms(1)])
  from CostMatrix_ctor_result[OF inr, of exclude] assms(1) have
    nr: "numRows (cost_matrix cm) = length (available_rows ?N include)"
    and nc: "numColumns (cost_matrix cm) = length (available_columns ?N include)"
    by auto
  have "card (edge_u ` set include) = length include"
    using distinct_card[OF assms(2)] by simp
  moreover have "card (edge_v ` set include) = length include"
    using distinct_card[OF assms(3)] by simp
  ultimately show ?thesis
    using nr nc length_available_rows[of "include" ?N] length_available_columns[of "include" ?N] inr
    by simp
qed

subsection \<open>Any value of \<^verbatim>\<open>Size()\<close>\<close>

lemma reduce_row_Inr_in_range:
  "reduce_row m row_num = Inr (x, m') \<Longrightarrow> row_num < numRows m \<and> 0 < numColumns m"
  by (auto simp: reduce_row_def Let_def vec_at_def Matrix_at_def split: sum.splits if_splits)

lemma reduce_column_Inr_in_range:
  "reduce_column m column_num = Inr (x, m') \<Longrightarrow> column_num < numColumns m \<and> 0 < numRows m"
  by (auto simp: reduce_column_def Let_def vec_at_def Matrix_at_def split: sum.splits if_splits)

lemma reduce_rows_Inr_in_range:
  "reduce_rows Size row_num m decremented = Inr (x, m') \<Longrightarrow> row_num < Size \<Longrightarrow>
   Size \<le> numRows m"
proof (induction Size row_num m decremented rule: reduce_rows.induct)
  case (1 Size row_num m decremented)
  from "1.prems" obtain mn m1 where
    a: "reduce_row m row_num = Inr (mn, m1)"
    and r: "reduce_rows Size (Suc row_num) m1 (int32_wrap (decremented + mn)) = Inr (x, m')"
    by (auto simp: reduce_rows.simps[of Size row_num] split: sum.splits)
  have d: "numRows m1 = numRows m"
    using reduce_row_same_infinite[OF a] by (simp add: same_infinite_def)
  show ?case
  proof (cases "Suc row_num < Size")
    case True
    from "1.IH"[OF "1.prems"(2) a refl r True] d show ?thesis by simp
  next
    case False
    then show ?thesis using "1.prems"(2) reduce_row_Inr_in_range[OF a] by simp
  qed
qed

lemma reduce_columns_Inr_in_range:
  "reduce_columns Size column_num m decremented = Inr (x, m') \<Longrightarrow> column_num < Size \<Longrightarrow>
   Size \<le> numColumns m"
proof (induction Size column_num m decremented rule: reduce_columns.induct)
  case (1 Size column_num m decremented)
  from "1.prems" obtain mn m1 where
    a: "reduce_column m column_num = Inr (mn, m1)"
    and r: "reduce_columns Size (Suc column_num) m1 (int32_wrap (decremented + mn)) = Inr (x, m')"
    by (auto simp: reduce_columns.simps[of Size column_num] split: sum.splits)
  have d: "numColumns m1 = numColumns m"
    using reduce_column_same_infinite[OF a] by (simp add: same_infinite_def)
  show ?case
  proof (cases "Suc column_num < Size")
    case True
    from "1.IH"[OF "1.prems"(2) a refl r True] d show ?thesis by simp
  next
    case False
    then show ?thesis using "1.prems"(2) reduce_column_Inr_in_range[OF a] by simp
  qed
qed

lemma ReduceMatrix_Inr_in_range:
  assumes "ReduceMatrix Size cm = Inr (decremented, cm')"
  shows "Size \<le> numRows (cost_matrix cm)" "Size \<le> numColumns (cost_matrix cm)"
proof -
  from assms obtain d m1 m2 where
    a: "reduce_rows Size 0 (cost_matrix cm) 0 = Inr (d, m1)"
    and b: "reduce_columns Size 0 m1 d = Inr (decremented, m2)"
    by (auto simp: ReduceMatrix_def split: sum.splits)
  show "Size \<le> numRows (cost_matrix cm)"
    using reduce_rows_Inr_in_range[OF a] by (cases "Size = 0") simp_all
  have "numColumns m1 = numColumns (cost_matrix cm)"
    using reduce_rows_same_infinite[OF a] by (simp add: same_infinite_def)
  then show "Size \<le> numColumns (cost_matrix cm)"
    using reduce_columns_Inr_in_range[OF b] by (cases "Size = 0") simp_all
qed

lemma ReduceMatrix_Inr:
  assumes "ReduceMatrix Size cm = Inr (decremented, cm')"
  shows "Size \<le> numRows (cost_matrix cm)" "Size \<le> numColumns (cost_matrix cm)"
    "\<forall>r < Size. vec_has_finite (cost_matrix cm) (CostRow r)"
    "\<forall>c < Size. vec_has_finite (cost_matrix cm) (CostColumn c)"
    "cm' = cm\<lparr>cost_matrix := columns_done (rows_done (cost_matrix cm) Size) Size\<rparr>"
proof -
  show le: "Size \<le> numRows (cost_matrix cm)" "Size \<le> numColumns (cost_matrix cm)"
    by (rule ReduceMatrix_Inr_in_range[OF assms])+
  from ReduceMatrix_partial[OF le] assms
  have c: "(\<forall>r < Size. vec_has_finite (cost_matrix cm) (CostRow r))
         \<and> (\<forall>c < Size. vec_has_finite (cost_matrix cm) (CostColumn c))"
    by (metis Inl_Inr_False)
  then show "\<forall>r < Size. vec_has_finite (cost_matrix cm) (CostRow r)"
    "\<forall>c < Size. vec_has_finite (cost_matrix cm) (CostColumn c)" by simp_all
  show "cm' = cm\<lparr>cost_matrix := columns_done (rows_done (cost_matrix cm) Size) Size\<rparr>"
    using ReduceMatrix_partial[OF le] assms c by simp
qed

lemma entries_rows_done:
  "entries (rows_done m n) (r, c) =
     (if r < n \<and> c < numColumns m then sub_cell (entries m (r, c)) (row_minimum m r)
      else entries m (r, c))"
  by (simp add: rows_done_def)

lemma entries_columns_done:
  "entries (columns_done m n) (r, c) =
     (if c < n \<and> r < numRows m then sub_cell (entries m (r, c)) (column_minimum m c)
      else entries m (r, c))"
  by (simp add: columns_done_def)

lemma partially_reduced:
  assumes le: "S \<le> numRows m" "S \<le> numColumns m"
    and fr: "\<forall>r < S. vec_has_finite m (CostRow r)"
    and fc: "\<forall>c < S. vec_has_finite m (CostColumn c)"
    and rest: "\<forall>r c. S \<le> r \<and> r < numRows m \<and> c < S \<and> \<not> cmi_infinite (entries m (r, c))
                 \<longrightarrow> 0 \<le> cmi_value (entries m (r, c))"
  shows "reduced_upto S (columns_done (rows_done m S) S)"
proof -
  let ?m1 = "rows_done m S" and ?m2 = "columns_done (rows_done m S) S"
  have a: "0 \<le> cmi_value (entries ?m1 (r, c))"
    if "r < S" "c < numColumns m" "\<not> cmi_infinite (entries ?m1 (r, c))" for r c
    using that row_minimum_le[of c m r]
    by (simp add: entries_rows_done value_sub_cell)
  have b: "\<exists>c < numColumns m. zero_cell ?m1 (r, c)" if "r < S" for r
  proof -
    from row_minimum_attained[of m r] fr that obtain c where
      c: "c < numColumns m" "\<not> cmi_infinite (entries m (r, c))"
         "cmi_value (entries m (r, c)) = row_minimum m r" by blast
    then have "zero_cell ?m1 (r, c)"
      using that by (simp add: zero_cell_def entries_rows_done value_sub_cell)
    then show ?thesis using c(1) by blast
  qed
  have fc1: "vec_has_finite ?m1 (CostColumn c)" if "c < S" for c
    using fc that by simp
  have m1nn: "0 \<le> cmi_value (entries ?m1 (r, c))"
    if "r < numRows m" "c < S" "\<not> cmi_infinite (entries ?m1 (r, c))" for r c
  proof (cases "r < S")
    case True
    then show ?thesis using a[of r c] that le by simp
  next
    case False
    then show ?thesis using that rest by (simp add: entries_rows_done)
  qed
  have cmin0: "0 \<le> column_minimum ?m1 c" if "c < S" for c
  proof -
    from column_minimum_attained[OF fc1[OF that]] obtain r where
      "r < numRows m" "\<not> cmi_infinite (entries ?m1 (r, c))"
      "cmi_value (entries ?m1 (r, c)) = column_minimum ?m1 c" by auto
    then show ?thesis using m1nn[of r c] that by simp
  qed
  have colnn: "0 \<le> cmi_value (entries ?m2 (r, c))"
    if "c < S" "r < numRows m" "\<not> cmi_infinite (entries ?m2 (r, c))" for r c
    using that column_minimum_le[of r ?m1 c]
    by (simp add: entries_columns_done value_sub_cell)
  have rownn: "0 \<le> cmi_value (entries ?m2 (r, c))"
    if "r < S" "c < numColumns m" "\<not> cmi_infinite (entries ?m2 (r, c))" for r c
  proof (cases "c < S")
    case True
    then show ?thesis using colnn[of c r] that le by simp
  next
    case False
    then show ?thesis using a[of r c] that by (simp add: entries_columns_done)
  qed
  have colzero: "\<exists>r < numRows m. zero_cell ?m2 (r, c)" if "c < S" for c
  proof -
    from column_minimum_attained[OF fc1[OF that]] obtain r where
      r: "r < numRows m" "\<not> cmi_infinite (entries ?m1 (r, c))"
      "cmi_value (entries ?m1 (r, c)) = column_minimum ?m1 c" by auto
    then have "zero_cell ?m2 (r, c)"
      using that by (simp add: zero_cell_def entries_columns_done value_sub_cell)
    then show ?thesis using r(1) by blast
  qed
  have rowzero: "\<exists>c < numColumns m. zero_cell ?m2 (r, c)" if "r < S" for r
  proof -
    from b[OF that] obtain c where c: "c < numColumns m" "zero_cell ?m1 (r, c)" by blast
    have rr: "r < numRows m" using that le by simp
    have "zero_cell ?m2 (r, c)"
    proof (cases "c < S")
      case True
      have "column_minimum ?m1 c \<le> 0"
        using column_minimum_le[of r ?m1 c] c rr by (simp add: zero_cell_def)
      then have "column_minimum ?m1 c = 0" using cmin0[OF True] by simp
      then show ?thesis
        using c rr True by (simp add: zero_cell_def entries_columns_done value_sub_cell)
    next
      case False
      then show ?thesis using c by (simp add: zero_cell_def entries_columns_done)
    qed
    then show ?thesis using c(1) by blast
  qed
  show ?thesis
    unfolding reduced_upto_def using rownn colnn rowzero colzero by simp
qed

lemma reduced_upto_fixed:
  assumes n: "reduced_upto S m" and le: "S \<le> numRows m" "S \<le> numColumns m"
  shows "\<forall>r < S. vec_has_finite m (CostRow r)" "\<forall>c < S. vec_has_finite m (CostColumn c)"
    "\<forall>r < S. row_minimum m r = 0" "rows_done m S = m"
    "\<forall>c < S. column_minimum m c = 0" "columns_done m S = m"
proof -
  have rnn: "\<And>r c. r < S \<Longrightarrow> c < numColumns m \<Longrightarrow>
          \<not> cmi_infinite (entries m (r, c)) \<Longrightarrow> 0 \<le> cmi_value (entries m (r, c))"
    and cnn: "\<And>r c. c < S \<Longrightarrow> r < numRows m \<Longrightarrow>
          \<not> cmi_infinite (entries m (r, c)) \<Longrightarrow> 0 \<le> cmi_value (entries m (r, c))"
    and rz: "\<And>r. r < S \<Longrightarrow> \<exists>c < numColumns m. zero_cell m (r, c)"
    and cz: "\<And>c. c < S \<Longrightarrow> \<exists>r < numRows m. zero_cell m (r, c)"
    using n by (auto simp: reduced_upto_def)
  have hr: "vec_has_finite m (CostRow r)" if "r < S" for r
    using rz[OF that] by (auto simp: vec_has_finite_def vec_cell_def vec_pos_def zero_cell_def)
  have hc: "vec_has_finite m (CostColumn c)" if "c < S" for c
    using cz[OF that] by (auto simp: vec_has_finite_def vec_cell_def vec_pos_def zero_cell_def)
  show "\<forall>r < S. vec_has_finite m (CostRow r)" "\<forall>c < S. vec_has_finite m (CostColumn c)"
    using hr hc by simp_all
  have rm: "row_minimum m r = 0" if r: "r < S" for r
  proof -
    from rz[OF r] obtain c where "c < numColumns m" "zero_cell m (r, c)" by blast
    then have "row_minimum m r \<le> 0"
      using row_minimum_le[of c m r] by (simp add: zero_cell_def)
    moreover from row_minimum_attained[OF hr[OF r]] have "0 \<le> row_minimum m r"
      using rnn[OF r] by (metis)
    ultimately show ?thesis by simp
  qed
  have cm: "column_minimum m c = 0" if c: "c < S" for c
  proof -
    from cz[OF c] obtain r where "r < numRows m" "zero_cell m (r, c)" by blast
    then have "column_minimum m c \<le> 0"
      using column_minimum_le[of r m c] by (simp add: zero_cell_def)
    moreover from column_minimum_attained[OF hc[OF c]] have "0 \<le> column_minimum m c"
      using cnn[OF c] by (metis)
    ultimately show ?thesis by simp
  qed
  show "\<forall>r < S. row_minimum m r = 0" "\<forall>c < S. column_minimum m c = 0"
    using rm cm by simp_all
  have e1: "entries (rows_done m S) = entries m"
    using rm by (auto simp: fun_eq_iff entries_rows_done)
  show "rows_done m S = m"
    using e1 by (simp add: rows_done_def)
  have e2: "entries (columns_done m S) = entries m"
    using cm by (auto simp: fun_eq_iff entries_columns_done)
  show "columns_done m S = m"
    using e2 by (simp add: columns_done_def)
qed

lemma ReduceMatrix_reduced_upto:
  assumes n: "reduced_upto S (cost_matrix cm)"
    and le: "S \<le> numRows (cost_matrix cm)" "S \<le> numColumns (cost_matrix cm)"
  shows "ReduceMatrix S cm = Inr (0, cm)"
proof -
  note f = reduced_upto_fixed[OF n le]
  have "ReduceMatrix S cm = Inr (0, cm\<lparr>cost_matrix := cost_matrix cm\<rparr>)"
    unfolding ReduceMatrix_partial[OF le]
    using f by (simp only: if_True simp_thms sum.neutral_const add_0 int32_wrap_0 atLeastLessThan_iff)
       (simp add: f)
  then show ?thesis by simp
qed

lemma second_call_general:
  assumes r: "ReduceMatrix Size cm = Inr (decremented, cm')"
    and h: "Size = numRows (cost_matrix cm) \<or>
       (\<forall>r c. r < numRows (cost_matrix cm) \<and> c < numColumns (cost_matrix cm)
               \<and> \<not> cmi_infinite (entries (cost_matrix cm) (r, c))
            \<longrightarrow> 0 \<le> cmi_value (entries (cost_matrix cm) (r, c)))"
  shows "ReduceMatrix Size cm' = Inr (0, cm')"
proof -
  note i = ReduceMatrix_Inr[OF r]
  have rest: "\<forall>r c. Size \<le> r \<and> r < numRows (cost_matrix cm) \<and> c < Size
                 \<and> \<not> cmi_infinite (entries (cost_matrix cm) (r, c))
                 \<longrightarrow> 0 \<le> cmi_value (entries (cost_matrix cm) (r, c))"
    using h i(2) by auto
  have n: "reduced_upto Size (cost_matrix cm')"
    using partially_reduced[OF i(1,2,3,4) rest] i(5) by simp
  have le: "Size \<le> numRows (cost_matrix cm')" "Size \<le> numColumns (cost_matrix cm')"
    using i by simp_all
  show ?thesis by (rule ReduceMatrix_reduced_upto[OF n le])
qed

subsection \<open>Matrices that are not square, and a large total\<close>

lemma ReduceMatrix_second_row_fails:
  assumes a: "reduce_row (cost_matrix cm) 0 = Inr (mn, m1)"
    and b: "reduce_row m1 (Suc 0) = Inl e" and s: "2 \<le> Size"
  shows "ReduceMatrix Size cm = Inl e"
proof -
  have lt: "0 < Size" "Suc 0 < Size" using s by simp_all
  have "reduce_rows Size (Suc 0) m1 (int32_wrap (0 + mn)) = Inl e"
    by (subst reduce_rows.simps) (simp only: lt if_True b sum.case)
  then have "reduce_rows Size 0 (cost_matrix cm) 0 = Inl e"
    by (subst reduce_rows.simps) (simp only: lt if_True a sum.case prod.case)
  then show ?thesis by (simp add: ReduceMatrix_def)
qed

lemma wide_example:
  "\<exists>cm cm0 cm1. CostMatrix_ctor wide_graph [Edge 0 1, Edge 2 1] [] = Inr cm
     \<and> numRows (cost_matrix cm) = 1 \<and> numColumns (cost_matrix cm) = 2
     \<and> reducible (cost_matrix cm) \<and> reduction_total (cost_matrix cm) = 8
     \<and> ReduceMatrix 0 cm = Inr (0, cm0)
     \<and> cmi_value (entries (cost_matrix cm0) (0, 1)) = 8
     \<and> ReduceMatrix 1 cm = Inr (6, cm1)
     \<and> cmi_value (entries (cost_matrix cm1) (0, 1)) = 2
     \<and> (\<forall>Size \<ge> 2. ReduceMatrix Size cm = Inl OutOfRange)"
proof -
  have "case CostMatrix_ctor wide_graph [Edge 0 1, Edge 2 1] [] of
          Inl x \<Rightarrow> False
        | Inr cm \<Rightarrow>
            numRows (cost_matrix cm) = 1 \<and> numColumns (cost_matrix cm) = 2
            \<and> \<not> cmi_infinite (entries (cost_matrix cm) (0, 0))
            \<and> \<not> cmi_infinite (entries (cost_matrix cm) (0, 1))
            \<and> reduction_total (cost_matrix cm) = 8
            \<and> (case ReduceMatrix 0 cm of
                  Inl x \<Rightarrow> False
                | Inr (d, cm') \<Rightarrow> d = 0 \<and> cmi_value (entries (cost_matrix cm') (0, 1)) = 8)
            \<and> (case ReduceMatrix 1 cm of
                  Inl x \<Rightarrow> False
                | Inr (d, cm') \<Rightarrow> d = 6 \<and> cmi_value (entries (cost_matrix cm') (0, 1)) = 2)
            \<and> (case reduce_row (cost_matrix cm) 0 of
                  Inl x \<Rightarrow> False
                | Inr (mn, m1) \<Rightarrow>
                    (case reduce_row m1 (Suc 0) of Inl e \<Rightarrow> e = OutOfRange | Inr y \<Rightarrow> False))"
    by code_simp
  then obtain cm where c: "CostMatrix_ctor wide_graph [Edge 0 1, Edge 2 1] [] = Inr cm"
    and d: "numRows (cost_matrix cm) = 1" "numColumns (cost_matrix cm) = 2"
    and f: "\<not> cmi_infinite (entries (cost_matrix cm) (0, 0))"
           "\<not> cmi_infinite (entries (cost_matrix cm) (0, 1))"
    and t: "reduction_total (cost_matrix cm) = 8"
    and q0: "case ReduceMatrix 0 cm of
                  Inl x \<Rightarrow> False
                | Inr (d, cm') \<Rightarrow> d = 0 \<and> cmi_value (entries (cost_matrix cm') (0, 1)) = 8"
    and q1: "case ReduceMatrix 1 cm of
                  Inl x \<Rightarrow> False
                | Inr (d, cm') \<Rightarrow> d = 6 \<and> cmi_value (entries (cost_matrix cm') (0, 1)) = 2"
    and q2: "case reduce_row (cost_matrix cm) 0 of
                  Inl x \<Rightarrow> False
                | Inr (mn, m1) \<Rightarrow>
                    (case reduce_row m1 (Suc 0) of Inl e \<Rightarrow> e = OutOfRange | Inr y \<Rightarrow> False)"
    by (cases "CostMatrix_ctor wide_graph [Edge 0 1, Edge 2 1] []") simp_all
  from q0 obtain cm0 where r0: "ReduceMatrix 0 cm = Inr (0, cm0)"
    "cmi_value (entries (cost_matrix cm0) (0, 1)) = 8"
    by (cases "ReduceMatrix 0 cm") auto
  from q1 obtain cm1 where r1: "ReduceMatrix 1 cm = Inr (6, cm1)"
    "cmi_value (entries (cost_matrix cm1) (0, 1)) = 2"
    by (cases "ReduceMatrix 1 cm") auto
  from q2 obtain mn m1 where a: "reduce_row (cost_matrix cm) 0 = Inr (mn, m1)"
    and q3: "case reduce_row m1 (Suc 0) of Inl e \<Rightarrow> e = OutOfRange | Inr y \<Rightarrow> False"
    by (cases "reduce_row (cost_matrix cm) 0") auto
  have b: "reduce_row m1 (Suc 0) = Inl OutOfRange"
    using q3 by (cases "reduce_row m1 (Suc 0)") simp_all
  have red: "reducible (cost_matrix cm)"
    using d f
    by (auto simp: reducible_def vec_has_finite_def vec_cell_def vec_pos_def
        numeral_2_eq_2 All_less_Suc Ex_less_Suc)
  have big: "\<forall>Size \<ge> 2. ReduceMatrix Size cm = Inl OutOfRange"
    using ReduceMatrix_second_row_fails[OF a b] by blast
  show ?thesis
    apply (rule exI[of _ cm])
    apply (rule exI[of _ cm0])
    apply (rule exI[of _ cm1])
    apply (intro conjI)
    subgoal by (rule c)
    subgoal by (rule d)
    subgoal by (rule d)
    subgoal by (rule red)
    subgoal by (rule t)
    subgoal by (rule r0)
    subgoal by (rule r0)
    subgoal by (rule r1)
    subgoal by (rule r1)
    subgoal by (rule big)
    done
qed

lemma wide_blocked_example:
  "\<exists>cm cm0 cm1. CostMatrix_ctor wide_graph [Edge 0 1, Edge 2 1] [Edge 1 2] = Inr cm
     \<and> numRows (cost_matrix cm) = 1 \<and> numColumns (cost_matrix cm) = 2
     \<and> \<not> vec_has_finite (cost_matrix cm) (CostColumn 1)
     \<and> ReduceMatrix 0 cm = Inr (0, cm0)
     \<and> ReduceMatrix 1 cm = Inr (6, cm1)
     \<and> (\<forall>Size \<ge> 2. ReduceMatrix Size cm = Inl OutOfRange)"
proof -
  have "case CostMatrix_ctor wide_graph [Edge 0 1, Edge 2 1] [Edge 1 2] of
          Inl x \<Rightarrow> False
        | Inr cm \<Rightarrow>
            numRows (cost_matrix cm) = 1 \<and> numColumns (cost_matrix cm) = 2
            \<and> cmi_infinite (entries (cost_matrix cm) (0, 1))
            \<and> (case ReduceMatrix 0 cm of Inl x \<Rightarrow> False | Inr (d, cm') \<Rightarrow> d = 0)
            \<and> (case ReduceMatrix 1 cm of Inl x \<Rightarrow> False | Inr (d, cm') \<Rightarrow> d = 6)
            \<and> (case reduce_row (cost_matrix cm) 0 of
                  Inl x \<Rightarrow> False
                | Inr (mn, m1) \<Rightarrow>
                    (case reduce_row m1 (Suc 0) of Inl e \<Rightarrow> e = OutOfRange | Inr y \<Rightarrow> False))"
    by code_simp
  then obtain cm where c: "CostMatrix_ctor wide_graph [Edge 0 1, Edge 2 1] [Edge 1 2] = Inr cm"
    and d: "numRows (cost_matrix cm) = 1" "numColumns (cost_matrix cm) = 2"
    and f: "cmi_infinite (entries (cost_matrix cm) (0, 1))"
    and q0: "case ReduceMatrix 0 cm of Inl x \<Rightarrow> False | Inr (d, cm') \<Rightarrow> d = 0"
    and q1: "case ReduceMatrix 1 cm of Inl x \<Rightarrow> False | Inr (d, cm') \<Rightarrow> d = 6"
    and q2: "case reduce_row (cost_matrix cm) 0 of
                  Inl x \<Rightarrow> False
                | Inr (mn, m1) \<Rightarrow>
                    (case reduce_row m1 (Suc 0) of Inl e \<Rightarrow> e = OutOfRange | Inr y \<Rightarrow> False)"
    by (cases "CostMatrix_ctor wide_graph [Edge 0 1, Edge 2 1] [Edge 1 2]") simp_all
  from q0 obtain cm0 where r0: "ReduceMatrix 0 cm = Inr (0, cm0)"
    by (cases "ReduceMatrix 0 cm") auto
  from q1 obtain cm1 where r1: "ReduceMatrix 1 cm = Inr (6, cm1)"
    by (cases "ReduceMatrix 1 cm") auto
  from q2 obtain mn m1 where a: "reduce_row (cost_matrix cm) 0 = Inr (mn, m1)"
    and q3: "case reduce_row m1 (Suc 0) of Inl e \<Rightarrow> e = OutOfRange | Inr y \<Rightarrow> False"
    by (cases "reduce_row (cost_matrix cm) 0") auto
  have b: "reduce_row m1 (Suc 0) = Inl OutOfRange"
    using q3 by (cases "reduce_row m1 (Suc 0)") simp_all
  have nf: "\<not> vec_has_finite (cost_matrix cm) (CostColumn 1)"
    using d f by (simp add: vec_has_finite_def vec_cell_def vec_pos_def)
  have big: "\<forall>Size \<ge> 2. ReduceMatrix Size cm = Inl OutOfRange"
    using ReduceMatrix_second_row_fails[OF a b] by blast
  show ?thesis
    apply (rule exI[of _ cm])
    apply (rule exI[of _ cm0])
    apply (rule exI[of _ cm1])
    apply (intro conjI)
    subgoal by (rule c)
    subgoal by (rule d)
    subgoal by (rule d)
    subgoal by (rule nf)
    subgoal by (rule r0)
    subgoal by (rule r1)
    subgoal by (rule big)
    done
qed

lemma big_example:
  "\<exists>cm cm'. CostMatrix_ctor big_graph [] [] = Inr cm
     \<and> numRows (cost_matrix cm) = 2 \<and> numColumns (cost_matrix cm) = 2
     \<and> reducible (cost_matrix cm) \<and> reduction_total (cost_matrix cm) = 2147483648
     \<and> ReduceMatrix 2 cm = Inr (- 2147483648, cm')"
proof -
  have "case CostMatrix_ctor big_graph [] [] of
          Inl x \<Rightarrow> False
        | Inr cm \<Rightarrow>
            numRows (cost_matrix cm) = 2 \<and> numColumns (cost_matrix cm) = 2
            \<and> \<not> cmi_infinite (entries (cost_matrix cm) (0, 0))
            \<and> \<not> cmi_infinite (entries (cost_matrix cm) (1, 1))
            \<and> reduction_total (cost_matrix cm) = 2147483648
            \<and> (case ReduceMatrix 2 cm of
                  Inl x \<Rightarrow> False
                | Inr (d, cm') \<Rightarrow> d = - 2147483648)"
    by code_simp
  then obtain cm where c: "CostMatrix_ctor big_graph [] [] = Inr cm"
    and d: "numRows (cost_matrix cm) = 2" "numColumns (cost_matrix cm) = 2"
    and f: "\<not> cmi_infinite (entries (cost_matrix cm) (0, 0))"
           "\<not> cmi_infinite (entries (cost_matrix cm) (1, 1))"
    and t: "reduction_total (cost_matrix cm) = 2147483648"
    and q: "case ReduceMatrix 2 cm of Inl x \<Rightarrow> False | Inr (d, cm') \<Rightarrow> d = - 2147483648"
    by (cases "CostMatrix_ctor big_graph [] []") simp_all
  from q obtain cm' where r: "ReduceMatrix 2 cm = Inr (- 2147483648, cm')"
    by (cases "ReduceMatrix 2 cm") auto
  have red: "reducible (cost_matrix cm)"
    using d f
    by (auto simp: reducible_def vec_has_finite_def vec_cell_def vec_pos_def
        numeral_2_eq_2 All_less_Suc Ex_less_Suc)
  show ?thesis
    apply (rule exI[of _ cm])
    apply (rule exI[of _ cm'])
    apply (intro conjI)
    subgoal by (rule c)
    subgoal by (rule d)
    subgoal by (rule d)
    subgoal by (rule red)
    subgoal by (rule t)
    subgoal by (rule r)
    done
qed

lemma tall_example:
  "\<exists>cm cm'. CostMatrix_ctor wide_graph [Edge 1 0, Edge 1 2] [] = Inr cm
     \<and> numRows (cost_matrix cm) = 2 \<and> numColumns (cost_matrix cm) = 1
     \<and> ReduceMatrix 1 cm = Inr (10, cm')"
proof -
  have "case CostMatrix_ctor wide_graph [Edge 1 0, Edge 1 2] [] of
          Inl x \<Rightarrow> False
        | Inr cm \<Rightarrow>
            numRows (cost_matrix cm) = 2 \<and> numColumns (cost_matrix cm) = 1
            \<and> cmi_value (entries (cost_matrix cm) (0, 0)) = 10
            \<and> cmi_value (entries (cost_matrix cm) (1, 0)) = 35
            \<and> (case ReduceMatrix 1 cm of Inl x \<Rightarrow> False | Inr (d, cm') \<Rightarrow> d = 10)"
    by code_simp
  then obtain cm where c: "CostMatrix_ctor wide_graph [Edge 1 0, Edge 1 2] [] = Inr cm"
    and d: "numRows (cost_matrix cm) = 2" "numColumns (cost_matrix cm) = 1"
    and v: "cmi_value (entries (cost_matrix cm) (0, 0)) = 10"
           "cmi_value (entries (cost_matrix cm) (1, 0)) = 35"
    and q: "case ReduceMatrix 1 cm of Inl x \<Rightarrow> False | Inr (d, cm') \<Rightarrow> d = 10"
    by (cases "CostMatrix_ctor wide_graph [Edge 1 0, Edge 1 2] []") simp_all
  from q obtain cm' where r: "ReduceMatrix 1 cm = Inr (10, cm')"
    by (cases "ReduceMatrix 1 cm") auto
  show ?thesis
    apply (rule exI[of _ cm])
    apply (rule exI[of _ cm'])
    apply (intro conjI)
    subgoal by (rule c)
    subgoal by (rule d)
    subgoal by (rule d)
    subgoal by (rule r)
    done
qed

text \<open>
  The cells of a constructed matrix are the costs of the graph: non-negative when these are.
\<close>

lemma CostMatrix_ctor_cells:
  assumes c: "CostMatrix_ctor graph include exclude = Inr cm"
    and r: "r < numRows (cost_matrix cm)" and k: "k < numColumns (cost_matrix cm)"
  shows "\<exists>u v. u < GetNumVertices graph \<and> v < GetNumVertices graph
     \<and> entries (cost_matrix cm) (r, k) =
         (if Edge u v \<in> set exclude
          then SetInfinite (CostMatrixInteger_ctor (graph_cost graph u v) (Edge u v))
          else CostMatrixInteger_ctor (graph_cost graph u v) (Edge u v))"
proof -
  let ?N = "GetNumVertices graph"
  let ?rows = "available_rows ?N include" and ?cols = "available_columns ?N include"
  have inr: "\<forall>e \<in> set include. edge_u e < ?N \<and> edge_v e < ?N"
    by (rule CostMatrix_ctor_Inr_in_range[OF c])
  from CostMatrix_ctor_result[OF inr, of exclude] c have
    rm: "row_mapping cm = zip ?rows [0..<length ?rows]"
    and cmap: "column_mapping cm = zip ?cols [0..<length ?cols]"
    and nr: "numRows (cost_matrix cm) = length ?rows"
    and nc: "numColumns (cost_matrix cm) = length ?cols"
    and wf: "wf_CostMatrix cm"
    and cells: "\<forall>e. CostMatrix_at cm e =
          (if edge_u e \<in> set ?rows \<and> edge_v e \<in> set ?cols
           then Inr (if e \<in> set exclude
                     then SetInfinite (CostMatrixInteger_ctor (graph_cost graph (edge_u e) (edge_v e)) e)
                     else CostMatrixInteger_ctor (graph_cost graph (edge_u e) (edge_v e)) e)
           else Inl NotAvailableError)"
    by auto
  let ?u = "?rows ! r" and ?v = "?cols ! k"
  have dr: "distinct ?rows" and dc: "distinct ?cols"
    by (simp_all add: available_rows_def available_columns_def)
  have ur: "?u \<in> set ?rows" and vc: "?v \<in> set ?cols"
    using r k nr nc by simp_all
  have un: "?u < ?N" and vn: "?v < ?N"
    using ur vc by (simp_all add: set_available_rows set_available_columns)
  have m: "map_of (row_mapping cm) (edge_u (Edge ?u ?v)) = Some r"
    "map_of (column_mapping cm) (edge_v (Edge ?u ?v)) = Some k"
    using map_of_zip_upt[OF dr, of ?u r] map_of_zip_upt[OF dc, of ?v k] r k
    unfolding rm cmap nr nc by simp_all
  have at: "CostMatrix_at cm (Edge ?u ?v) = Inr (entries (cost_matrix cm) (r, k))"
    by (rule CostMatrix_at_available[OF wf m])
  have "CostMatrix_at cm (Edge ?u ?v) =
        Inr (if Edge ?u ?v \<in> set exclude
             then SetInfinite (CostMatrixInteger_ctor (graph_cost graph ?u ?v) (Edge ?u ?v))
             else CostMatrixInteger_ctor (graph_cost graph ?u ?v) (Edge ?u ?v))"
    using cells[rule_format, of "Edge ?u ?v"] ur vc by simp
  then have "entries (cost_matrix cm) (r, k) =
         (if Edge ?u ?v \<in> set exclude
          then SetInfinite (CostMatrixInteger_ctor (graph_cost graph ?u ?v) (Edge ?u ?v))
          else CostMatrixInteger_ctor (graph_cost graph ?u ?v) (Edge ?u ?v))"
    unfolding at by simp
  then show ?thesis using un vn by blast
qed

lemma CostMatrix_ctor_nonneg:
  assumes c: "CostMatrix_ctor graph include exclude = Inr cm"
    and g: "\<forall>i < GetNumVertices graph. \<forall>j < GetNumVertices graph. 0 \<le> graph_cost graph i j"
  shows "\<forall>r < numRows (cost_matrix cm). \<forall>k < numColumns (cost_matrix cm).
           0 \<le> cmi_value (entries (cost_matrix cm) (r, k))"
proof (intro allI impI)
  fix r k assume "r < numRows (cost_matrix cm)" "k < numColumns (cost_matrix cm)"
  from CostMatrix_ctor_cells[OF c this] obtain u v where
    "u < GetNumVertices graph" "v < GetNumVertices graph"
    "entries (cost_matrix cm) (r, k) =
         (if Edge u v \<in> set exclude
          then SetInfinite (CostMatrixInteger_ctor (graph_cost graph u v) (Edge u v))
          else CostMatrixInteger_ctor (graph_cost graph u v) (Edge u v))"
    by blast
  then show "0 \<le> cmi_value (entries (cost_matrix cm) (r, k))"
    using g by (simp add: SetInfinite_def CostMatrixInteger_ctor_def)
qed

subsection \<open>The claims about the reduction\<close>

text \<open>
  Claim C1, amended. On a square matrix, \<^verbatim>\<open>Size()\<close> being the number of its rows
  and of its columns, every condensed row and column of which holds a finite cell,
  \<open>ReduceMatrix\<close> subtracts from every cell of each row that row's minimum (the least
  finite value of the row, attained in it), all rows first, then from every cell of each
  column the minimum of that column in the row-reduced matrix. It returns the sum of the
  row minima plus the column minima computed in that order as the 32-bit accumulator
  holds it: the sum itself whenever the sum lies in the range of \<^verbatim>\<open>int\<close>.
\<close>

theorem ReduceMatrix_rows_then_columns:
  assumes "Size = numRows (cost_matrix cm)" "Size = numColumns (cost_matrix cm)"
    and "reducible (cost_matrix cm)"
  shows "ReduceMatrix Size cm =
           Inr (int32_wrap
                  ((\<Sum>r = 0..<numRows (cost_matrix cm). row_minimum (cost_matrix cm) r)
                   + (\<Sum>c = 0..<numColumns (cost_matrix cm).
                         column_minimum (subtract_row_minima (cost_matrix cm)) c)),
                cm\<lparr>cost_matrix := subtract_column_minima (subtract_row_minima (cost_matrix cm))\<rparr>)
     \<and> (- 2147483648 \<le> (\<Sum>r = 0..<numRows (cost_matrix cm). row_minimum (cost_matrix cm) r)
                   + (\<Sum>c = 0..<numColumns (cost_matrix cm).
                         column_minimum (subtract_row_minima (cost_matrix cm)) c)
        \<and> (\<Sum>r = 0..<numRows (cost_matrix cm). row_minimum (cost_matrix cm) r)
                   + (\<Sum>c = 0..<numColumns (cost_matrix cm).
                         column_minimum (subtract_row_minima (cost_matrix cm)) c) < 2147483648
        \<longrightarrow> ReduceMatrix Size cm =
           Inr ((\<Sum>r = 0..<numRows (cost_matrix cm). row_minimum (cost_matrix cm) r)
                + (\<Sum>c = 0..<numColumns (cost_matrix cm).
                      column_minimum (subtract_row_minima (cost_matrix cm)) c),
                cm\<lparr>cost_matrix := subtract_column_minima (subtract_row_minima (cost_matrix cm))\<rparr>))
     \<and> (\<forall>r < numRows (cost_matrix cm).
           (\<exists>c < numColumns (cost_matrix cm). \<not> cmi_infinite (entries (cost_matrix cm) (r, c))
               \<and> cmi_value (entries (cost_matrix cm) (r, c)) = row_minimum (cost_matrix cm) r)
         \<and> (\<forall>c < numColumns (cost_matrix cm). \<not> cmi_infinite (entries (cost_matrix cm) (r, c)) \<longrightarrow>
               row_minimum (cost_matrix cm) r \<le> cmi_value (entries (cost_matrix cm) (r, c)))
         \<and> (\<forall>c < numColumns (cost_matrix cm).
               entries (subtract_row_minima (cost_matrix cm)) (r, c) =
                 sub_cell (entries (cost_matrix cm) (r, c)) (row_minimum (cost_matrix cm) r)))
     \<and> (\<forall>c < numColumns (cost_matrix cm).
           (\<exists>r < numRows (cost_matrix cm).
               \<not> cmi_infinite (entries (subtract_row_minima (cost_matrix cm)) (r, c))
               \<and> cmi_value (entries (subtract_row_minima (cost_matrix cm)) (r, c)) =
                   column_minimum (subtract_row_minima (cost_matrix cm)) c)
         \<and> (\<forall>r < numRows (cost_matrix cm).
               \<not> cmi_infinite (entries (subtract_row_minima (cost_matrix cm)) (r, c)) \<longrightarrow>
               column_minimum (subtract_row_minima (cost_matrix cm)) c
                 \<le> cmi_value (entries (subtract_row_minima (cost_matrix cm)) (r, c)))
         \<and> (\<forall>r < numRows (cost_matrix cm).
               entries (subtract_column_minima (subtract_row_minima (cost_matrix cm))) (r, c) =
                 sub_cell (entries (subtract_row_minima (cost_matrix cm)) (r, c))
                   (column_minimum (subtract_row_minima (cost_matrix cm)) c)))"
proof -
  let ?m = "cost_matrix cm" and ?m1 = "subtract_row_minima (cost_matrix cm)"
  let ?t = "(\<Sum>r = 0..<numRows ?m. row_minimum ?m r)
                + (\<Sum>c = 0..<numColumns ?m. column_minimum ?m1 c)"
  have fr: "\<And>r. r < numRows ?m \<Longrightarrow> vec_has_finite ?m (CostRow r)"
    and fc: "\<And>c. c < numColumns ?m \<Longrightarrow> vec_has_finite ?m1 (CostColumn c)"
    using assms(3) by (simp_all add: reducible_def)
  have 1: "ReduceMatrix Size cm =
           Inr (int32_wrap ?t, cm\<lparr>cost_matrix := subtract_column_minima ?m1\<rparr>)"
    using ReduceMatrix_result[OF assms(1,2)] assms(3) by (simp add: reduction_total_def)
  have exact: "ReduceMatrix Size cm = Inr (?t, cm\<lparr>cost_matrix := subtract_column_minima ?m1\<rparr>)"
    if "- 2147483648 \<le> ?t \<and> ?t < 2147483648"
    using 1 int32_wrap_id[of ?t] that by simp
  have 2: "(\<exists>c < numColumns ?m. \<not> cmi_infinite (entries ?m (r, c))
               \<and> cmi_value (entries ?m (r, c)) = row_minimum ?m r)
         \<and> (\<forall>c < numColumns ?m. \<not> cmi_infinite (entries ?m (r, c)) \<longrightarrow>
               row_minimum ?m r \<le> cmi_value (entries ?m (r, c)))
         \<and> (\<forall>c < numColumns ?m.
               entries ?m1 (r, c) = sub_cell (entries ?m (r, c)) (row_minimum ?m r))"
    if "r < numRows ?m" for r
    using row_minimum_attained[OF fr[OF that]] row_minimum_le[of _ ?m r] that
    by (simp add: entries_subtract_row_minima)
  have 3: "(\<exists>r < numRows ?m. \<not> cmi_infinite (entries ?m1 (r, c))
               \<and> cmi_value (entries ?m1 (r, c)) = column_minimum ?m1 c)
         \<and> (\<forall>r < numRows ?m. \<not> cmi_infinite (entries ?m1 (r, c)) \<longrightarrow>
               column_minimum ?m1 c \<le> cmi_value (entries ?m1 (r, c)))
         \<and> (\<forall>r < numRows ?m.
               entries (subtract_column_minima ?m1) (r, c) =
                 sub_cell (entries ?m1 (r, c)) (column_minimum ?m1 c))"
    if "c < numColumns ?m" for c
    using column_minimum_attained[OF fc[OF that]] column_minimum_le[of _ ?m1 c] that
    by (simp add: entries_subtract_column_minima)
  show ?thesis
    apply (intro conjI allI impI)
    subgoal by (rule 1)
    subgoal by (rule exact) simp
    subgoal for r using 2[of r] by blast
    subgoal for r using 2[of r] by blast
    subgoal for r using 2[of r] by blast
    subgoal for c using 3[of c] by blast
    subgoal for c using 3[of c] by blast
    subgoal for c using 3[of c] by blast
    done
qed

theorem ReduceMatrix_rows_then_columns_witness:
  "ReduceMatrix 2 example_cm =
     Inr (15, example_cm\<lparr>cost_matrix :=
                subtract_column_minima (subtract_row_minima (cost_matrix example_cm))\<rparr>)
   \<and> map (\<lambda>p. cmi_value (entries (subtract_column_minima (subtract_row_minima example_matrix)) p))
         [(0, 0), (0, 1), (1, 0)] = [0, 0, 0]
   \<and> cmi_infinite (entries (subtract_column_minima (subtract_row_minima example_matrix)) (1, 1))"
proof -
  have d: "2 = numRows (cost_matrix example_cm)" "2 = numColumns (cost_matrix example_cm)"
    by (simp_all add: example_dims)
  have t: "(\<Sum>r = 0..<numRows (cost_matrix example_cm). row_minimum (cost_matrix example_cm) r)
      + (\<Sum>c = 0..<numColumns (cost_matrix example_cm).
            column_minimum (subtract_row_minima (cost_matrix example_cm)) c) = 15"
    using example_total by (simp add: reduction_total_def example_cm_def)
  from ReduceMatrix_rows_then_columns[OF d example_reducible]
  have "- 2147483648 \<le> (15::int) \<and> (15::int) < 2147483648 \<longrightarrow>
     ReduceMatrix 2 example_cm =
     Inr (15, example_cm\<lparr>cost_matrix :=
                subtract_column_minima (subtract_row_minima (cost_matrix example_cm))\<rparr>)"
    unfolding t by (elim conjE)
  then have "ReduceMatrix 2 example_cm =
     Inr (15, example_cm\<lparr>cost_matrix :=
                subtract_column_minima (subtract_row_minima (cost_matrix example_cm))\<rparr>)"
    by simp
  then show ?thesis using example_reduced_cells by simp
qed

text \<open>
  Claim C1 as stated fails on two matrices the constructor builds. With the include
  edges \<open>0 \<rightarrow> 1\<close> and \<open>2 \<rightarrow> 1\<close> on a three-vertex graph the condensed matrix is the single
  row \<open>[6, 8]\<close>; its minima add up to \<open>8\<close>, and no value of \<^verbatim>\<open>Size()\<close> makes
  \<open>ReduceMatrix\<close> return \<open>8\<close>: it returns \<open>0\<close> for \<open>0\<close>, \<open>6\<close> for \<open>1\<close>, and reads outside
  the storage from \<open>2\<close> on. On the square matrix of a two-vertex graph all of whose costs
  are \<open>2\<^sup>3\<^sup>0\<close> the minima add up to \<open>2\<^sup>3\<^sup>1\<close>, and the accumulator holds \<open>- 2\<^sup>3\<^sup>1\<close>.
\<close>

theorem ReduceMatrix_rows_then_columns_counterexample:
  "(\<exists>cm. CostMatrix_ctor wide_graph [Edge 0 1, Edge 2 1] [] = Inr cm
      \<and> numRows (cost_matrix cm) = 1 \<and> numColumns (cost_matrix cm) = 2
      \<and> reducible (cost_matrix cm) \<and> reduction_total (cost_matrix cm) = 8
      \<and> (\<forall>Size cm'. ReduceMatrix Size cm \<noteq> Inr (8, cm')))
   \<and> (\<exists>cm cm'. CostMatrix_ctor big_graph [] [] = Inr cm
      \<and> numRows (cost_matrix cm) = 2 \<and> numColumns (cost_matrix cm) = 2
      \<and> reducible (cost_matrix cm) \<and> reduction_total (cost_matrix cm) = 2147483648
      \<and> ReduceMatrix 2 cm = Inr (- 2147483648, cm'))"
proof -
  from wide_example obtain cm cm0 cm1 where
    c: "CostMatrix_ctor wide_graph [Edge 0 1, Edge 2 1] [] = Inr cm"
    and d: "numRows (cost_matrix cm) = 1" "numColumns (cost_matrix cm) = 2"
    and red: "reducible (cost_matrix cm)" and t: "reduction_total (cost_matrix cm) = 8"
    and r0: "ReduceMatrix 0 cm = Inr (0, cm0)"
    and v0: "cmi_value (entries (cost_matrix cm0) (0, 1)) = 8"
    and r1: "ReduceMatrix 1 cm = Inr (6, cm1)"
    and v1: "cmi_value (entries (cost_matrix cm1) (0, 1)) = 2"
    and big: "\<forall>Size \<ge> 2. ReduceMatrix Size cm = Inl OutOfRange"
    by (elim exE conjE) (rule that; assumption)
  have no: "ReduceMatrix Size cm \<noteq> Inr (8, cm')" for Size cm'
  proof -
    consider "Size = 0" | "Size = 1" | "2 \<le> Size" by linarith
    then show ?thesis
    proof cases
      case 1
      then show ?thesis using r0 by auto
    next
      case 2
      then show ?thesis using r1 by auto
    next
      case 3
      then show ?thesis using big by simp
    qed
  qed
  have a: "\<exists>cm. CostMatrix_ctor wide_graph [Edge 0 1, Edge 2 1] [] = Inr cm
      \<and> numRows (cost_matrix cm) = 1 \<and> numColumns (cost_matrix cm) = 2
      \<and> reducible (cost_matrix cm) \<and> reduction_total (cost_matrix cm) = 8
      \<and> (\<forall>Size cm'. ReduceMatrix Size cm \<noteq> Inr (8, cm'))"
    using c d red t no by blast
  show ?thesis using a big_example by (rule conjI)
qed

text \<open>
  Claim C8, amended. On a square matrix, \<^verbatim>\<open>Size()\<close> being the number of its rows
  and of its columns: when every row and column holds a finite cell, \<open>ReduceMatrix\<close>
  returns a bound, and the minimum that \<^verbatim>\<open>min_element\<close> finds for each row, and for
  each column of the row-reduced matrix, exists and is finite; when some row or column
  holds no finite cell, \<open>ReduceMatrix\<close> aborts on a failed assertion.
\<close>

theorem ReduceMatrix_assertions:
  assumes "Size = numRows (cost_matrix cm)" "Size = numColumns (cost_matrix cm)"
  shows "(reducible (cost_matrix cm) \<longrightarrow>
            (\<exists>decremented cm'. ReduceMatrix Size cm = Inr (decremented, cm'))
          \<and> (\<forall>r < numRows (cost_matrix cm).
                \<exists>i < numColumns (cost_matrix cm).
                   min_element (cost_matrix cm) (CostRow r) 0 (Size_vec (cost_matrix cm) (CostRow r))
                     = Inr i
                   \<and> (\<exists>mn. vec_at (cost_matrix cm) (CostRow r) i = Inr mn \<and> \<not> IsInfinite mn))
          \<and> (\<forall>c < numColumns (cost_matrix cm).
                \<exists>i < numRows (cost_matrix cm).
                   min_element (subtract_row_minima (cost_matrix cm)) (CostColumn c) 0
                      (Size_vec (subtract_row_minima (cost_matrix cm)) (CostColumn c)) = Inr i
                   \<and> (\<exists>mn. vec_at (subtract_row_minima (cost_matrix cm)) (CostColumn c) i = Inr mn
                          \<and> \<not> IsInfinite mn)))
     \<and> (\<not> reducible (cost_matrix cm) \<longrightarrow> ReduceMatrix Size cm = Inl AssertionFailed)"
proof -
  let ?m = "cost_matrix cm" and ?m1 = "subtract_row_minima (cost_matrix cm)"
  have found: "\<exists>i < Size_vec m vec. min_element m vec 0 (Size_vec m vec) = Inr i
       \<and> (\<exists>mn. vec_at m vec i = Inr mn \<and> \<not> IsInfinite mn)"
    if v: "vec_valid m vec" and f: "vec_has_finite m vec" for m vec
  proof -
    have pos: "0 < Size_vec m vec" using f by (auto simp: vec_has_finite_def)
    from min_element_valid[OF v pos] obtain i where i: "i < Size_vec m vec"
      and mi: "min_element m vec 0 (Size_vec m vec) = Inr i"
      and least: "\<forall>k < Size_vec m vec. \<not> cmi_less (vec_cell m vec k) (vec_cell m vec i)"
      by blast
    have "\<not> IsInfinite (vec_cell m vec i)"
      using least_cell_value[OF i least f] by (simp add: IsInfinite_def)
    then show ?thesis using i mi vec_at_valid[OF v i] by auto
  qed
  have rows: "\<exists>i < numColumns ?m.
       min_element ?m (CostRow r) 0 (Size_vec ?m (CostRow r)) = Inr i
       \<and> (\<exists>mn. vec_at ?m (CostRow r) i = Inr mn \<and> \<not> IsInfinite mn)"
    if "reducible ?m" "r < numRows ?m" for r
    using found[of ?m "CostRow r"] that by (simp add: reducible_def vec_valid_def)
  have cols: "\<exists>i < numRows ?m.
       min_element ?m1 (CostColumn c) 0 (Size_vec ?m1 (CostColumn c)) = Inr i
       \<and> (\<exists>mn. vec_at ?m1 (CostColumn c) i = Inr mn \<and> \<not> IsInfinite mn)"
    if "reducible ?m" "c < numColumns ?m" for c
    using found[of ?m1 "CostColumn c"] that by (simp add: reducible_def vec_valid_def)
  have ok: "\<exists>decremented cm'. ReduceMatrix Size cm = Inr (decremented, cm')" if "reducible ?m"
    using ReduceMatrix_result[OF assms] that by simp
  have bad: "ReduceMatrix Size cm = Inl AssertionFailed" if "\<not> reducible ?m"
    using ReduceMatrix_result[OF assms] that by simp
  show ?thesis
    using ok rows cols bad by blast
qed

theorem ReduceMatrix_assertions_witness:
  "(\<exists>decremented cm'. ReduceMatrix 2 example_cm = Inr (decremented, cm'))
   \<and> ReduceMatrix 2 blocked_cm = Inl AssertionFailed"
proof -
  have d: "2 = numRows (cost_matrix example_cm)" "2 = numColumns (cost_matrix example_cm)"
    by (simp_all add: example_dims)
  have b: "2 = numRows (cost_matrix blocked_cm)" "2 = numColumns (cost_matrix blocked_cm)"
    by (simp_all add: blocked_cm_def example_matrix_def)
  show ?thesis
    using ReduceMatrix_assertions[OF d] ReduceMatrix_assertions[OF b]
      example_reducible blocked_not_reducible
    by blast
qed

text \<open>
  Claim C8 as stated fails on a matrix the constructor builds. With the include edges
  \<open>0 \<rightarrow> 1\<close> and \<open>2 \<rightarrow> 1\<close> and the exclude edge \<open>1 \<rightarrow> 2\<close> on a three-vertex graph the
  condensed matrix is the single row \<open>[6, \<infinity>]\<close>, whose second column holds no
  finite cell. No value of \<^verbatim>\<open>Size()\<close> makes \<open>ReduceMatrix\<close> fail an assertion: it
  returns \<open>0\<close> for \<open>0\<close> and the bound \<open>6\<close> for \<open>1\<close>, and reads outside the storage from
  \<open>2\<close> on.
\<close>

theorem ReduceMatrix_assertions_counterexample:
  "\<exists>cm. CostMatrix_ctor wide_graph [Edge 0 1, Edge 2 1] [Edge 1 2] = Inr cm
      \<and> numRows (cost_matrix cm) = 1 \<and> numColumns (cost_matrix cm) = 2
      \<and> \<not> reducible (cost_matrix cm)
      \<and> (\<exists>cm'. ReduceMatrix 1 cm = Inr (6, cm'))
      \<and> (\<forall>Size. ReduceMatrix Size cm \<noteq> Inl AssertionFailed)"
proof -
  from wide_blocked_example obtain cm cm0 cm1 where
    c: "CostMatrix_ctor wide_graph [Edge 0 1, Edge 2 1] [Edge 1 2] = Inr cm"
    and d: "numRows (cost_matrix cm) = 1" "numColumns (cost_matrix cm) = 2"
    and nf: "\<not> vec_has_finite (cost_matrix cm) (CostColumn 1)"
    and r0: "ReduceMatrix 0 cm = Inr (0, cm0)"
    and r1: "ReduceMatrix 1 cm = Inr (6, cm1)"
    and big: "\<forall>Size \<ge> 2. ReduceMatrix Size cm = Inl OutOfRange"
    by (elim exE conjE) (rule that; assumption)
  have "(1::nat) < numColumns (cost_matrix cm)" using d by simp
  then have nr: "\<not> reducible (cost_matrix cm)"
    using nf unfolding reducible_def by blast
  have no: "ReduceMatrix Size cm \<noteq> Inl AssertionFailed" for Size
  proof -
    consider "Size = 0" | "Size = 1" | "2 \<le> Size" by linarith
    then show ?thesis
    proof cases
      case 1
      then show ?thesis using r0 by auto
    next
      case 2
      then show ?thesis using r1 by auto
    next
      case 3
      then show ?thesis using big by simp
    qed
  qed
  show ?thesis using c d nr r1 no by blast
qed

text \<open>
  Claim C4, amended. After one call of \<open>ReduceMatrix\<close> on a square matrix,
  \<^verbatim>\<open>Size()\<close> being the number of its rows and of its columns, with no all-infinite
  row or column, every condensed row and every condensed column of the matrix holds a
  finite cell of value \<open>0\<close>.
\<close>

theorem reduced_matrix_has_zero_in_every_row_and_column:
  assumes "Size = numRows (cost_matrix cm)" "Size = numColumns (cost_matrix cm)"
    and "reducible (cost_matrix cm)"
  shows "\<exists>decremented cm'. ReduceMatrix Size cm = Inr (decremented, cm')
     \<and> (\<forall>r < numRows (cost_matrix cm'). \<exists>c < numColumns (cost_matrix cm').
           \<not> cmi_infinite (entries (cost_matrix cm') (r, c))
           \<and> cmi_value (entries (cost_matrix cm') (r, c)) = 0)
     \<and> (\<forall>c < numColumns (cost_matrix cm'). \<exists>r < numRows (cost_matrix cm').
           \<not> cmi_infinite (entries (cost_matrix cm') (r, c))
           \<and> cmi_value (entries (cost_matrix cm') (r, c)) = 0)"
proof -
  let ?m2 = "subtract_column_minima (subtract_row_minima (cost_matrix cm))"
  let ?cm' = "cm\<lparr>cost_matrix := ?m2\<rparr>"
  have r: "ReduceMatrix Size cm = Inr (int32_wrap (reduction_total (cost_matrix cm)), ?cm')"
    using ReduceMatrix_result[OF assms(1,2)] assms(3) by simp
  have n: "normalised ?m2" by (rule reduced_normalised[OF assms(3)])
  have rz: "\<forall>r < numRows (cost_matrix ?cm'). \<exists>c < numColumns (cost_matrix ?cm').
           \<not> cmi_infinite (entries (cost_matrix ?cm') (r, c))
           \<and> cmi_value (entries (cost_matrix ?cm') (r, c)) = 0"
    using n unfolding normalised_def zero_cell_def by simp
  have cz: "\<forall>c < numColumns (cost_matrix ?cm'). \<exists>r < numRows (cost_matrix ?cm').
           \<not> cmi_infinite (entries (cost_matrix ?cm') (r, c))
           \<and> cmi_value (entries (cost_matrix ?cm') (r, c)) = 0"
    using n unfolding normalised_def zero_cell_def by simp
  show ?thesis
    using r rz cz by blast
qed

theorem reduced_matrix_has_zero_in_every_row_and_column_witness:
  "\<exists>decremented cm'. ReduceMatrix 2 example_cm = Inr (decremented, cm')
     \<and> (\<forall>r < 2. \<exists>c < 2.
           \<not> cmi_infinite (entries (cost_matrix cm') (r, c))
           \<and> cmi_value (entries (cost_matrix cm') (r, c)) = 0)
     \<and> (\<forall>c < 2. \<exists>r < 2.
           \<not> cmi_infinite (entries (cost_matrix cm') (r, c))
           \<and> cmi_value (entries (cost_matrix cm') (r, c)) = 0)"
proof -
  have d: "2 = numRows (cost_matrix example_cm)" "2 = numColumns (cost_matrix example_cm)"
    by (simp_all add: example_dims)
  from reduced_matrix_has_zero_in_every_row_and_column[OF d example_reducible]
  obtain decremented cm' where r: "ReduceMatrix 2 example_cm = Inr (decremented, cm')"
    and z: "\<forall>r < numRows (cost_matrix cm'). \<exists>c < numColumns (cost_matrix cm').
           \<not> cmi_infinite (entries (cost_matrix cm') (r, c))
           \<and> cmi_value (entries (cost_matrix cm') (r, c)) = 0"
       "\<forall>c < numColumns (cost_matrix cm'). \<exists>r < numRows (cost_matrix cm').
           \<not> cmi_infinite (entries (cost_matrix cm') (r, c))
           \<and> cmi_value (entries (cost_matrix cm') (r, c)) = 0"
    by (elim exE conjE) (rule that; assumption)
  have "cm' = example_cm\<lparr>cost_matrix :=
                subtract_column_minima (subtract_row_minima (cost_matrix example_cm))\<rparr>"
    using r ReduceMatrix_result[OF d] example_reducible by simp
  then have "numRows (cost_matrix cm') = 2" "numColumns (cost_matrix cm') = 2"
    by (simp_all add: example_dims)
  then show ?thesis using r z by (intro exI[of _ decremented] exI[of _ cm']) simp
qed

text \<open>
  Claim C4 as stated fails on a matrix the constructor builds: the single row \<open>[6, 8]\<close>
  that the include edges \<open>0 \<rightarrow> 1\<close> and \<open>2 \<rightarrow> 1\<close> leave of a three-vertex graph. Whatever
  \<^verbatim>\<open>Size()\<close> is, no call of \<open>ReduceMatrix\<close> leaves a \<open>0\<close> in every column: the second
  column keeps \<open>8\<close> for \<open>0\<close> and \<open>2\<close> for \<open>1\<close>, and from \<open>2\<close> on the call reads outside the
  storage.
\<close>

theorem reduced_matrix_has_zero_in_every_row_and_column_counterexample:
  "\<exists>cm. CostMatrix_ctor wide_graph [Edge 0 1, Edge 2 1] [] = Inr cm
      \<and> numRows (cost_matrix cm) = 1 \<and> numColumns (cost_matrix cm) = 2
      \<and> reducible (cost_matrix cm)
      \<and> (\<forall>Size. \<not> (\<exists>decremented cm'. ReduceMatrix Size cm = Inr (decremented, cm')
             \<and> (\<forall>c < numColumns (cost_matrix cm'). \<exists>r < numRows (cost_matrix cm').
                   \<not> cmi_infinite (entries (cost_matrix cm') (r, c))
                   \<and> cmi_value (entries (cost_matrix cm') (r, c)) = 0)))"
proof -
  from wide_example obtain cm cm0 cm1 where
    c: "CostMatrix_ctor wide_graph [Edge 0 1, Edge 2 1] [] = Inr cm"
    and d: "numRows (cost_matrix cm) = 1" "numColumns (cost_matrix cm) = 2"
    and red: "reducible (cost_matrix cm)" and t: "reduction_total (cost_matrix cm) = 8"
    and r0: "ReduceMatrix 0 cm = Inr (0, cm0)"
    and v0: "cmi_value (entries (cost_matrix cm0) (0, 1)) = 8"
    and r1: "ReduceMatrix 1 cm = Inr (6, cm1)"
    and v1: "cmi_value (entries (cost_matrix cm1) (0, 1)) = 2"
    and big: "\<forall>Size \<ge> 2. ReduceMatrix Size cm = Inl OutOfRange"
    by (elim exE conjE) (rule that; assumption)
  have no: "\<not> (\<exists>decremented cm'. ReduceMatrix Size cm = Inr (decremented, cm')
             \<and> (\<forall>c < numColumns (cost_matrix cm'). \<exists>r < numRows (cost_matrix cm').
                   \<not> cmi_infinite (entries (cost_matrix cm') (r, c))
                   \<and> cmi_value (entries (cost_matrix cm') (r, c)) = 0))" for Size
  proof
    assume "\<exists>decremented cm'. ReduceMatrix Size cm = Inr (decremented, cm')
             \<and> (\<forall>c < numColumns (cost_matrix cm'). \<exists>r < numRows (cost_matrix cm').
                   \<not> cmi_infinite (entries (cost_matrix cm') (r, c))
                   \<and> cmi_value (entries (cost_matrix cm') (r, c)) = 0)"
    then obtain decremented cm' where r: "ReduceMatrix Size cm = Inr (decremented, cm')"
      and z: "\<forall>c < numColumns (cost_matrix cm'). \<exists>r < numRows (cost_matrix cm').
                   \<not> cmi_infinite (entries (cost_matrix cm') (r, c))
                   \<and> cmi_value (entries (cost_matrix cm') (r, c)) = 0"
      by blast
    have d': "numRows (cost_matrix cm') = 1" "numColumns (cost_matrix cm') = 2"
      using ReduceMatrix_same_infinite(1)[OF r] d by (simp_all add: same_infinite_def)
    have z1: "cmi_value (entries (cost_matrix cm') (0, 1)) = 0"
      using z[rule_format, of 1] d' by simp
    consider "Size = 0" | "Size = 1" | "2 \<le> Size" by linarith
    then show False
    proof cases
      case 1
      then show ?thesis using r0 v0 r z1 by auto
    next
      case 2
      then show ?thesis using r1 v1 r z1 by auto
    next
      case 3
      then show ?thesis using big r by simp
    qed
  qed
  show ?thesis using c d red no by blast
qed

text \<open>
  Claim C5. Whatever \<^verbatim>\<open>Size()\<close> is and whatever the shape of the matrix: when a
  call of \<open>ReduceMatrix\<close> has returned, on a matrix whose finite cells are non-negative
  or whose rows \<^verbatim>\<open>Size()\<close> counts, a second call on the matrix it leaves returns
  the increment \<open>0\<close> (and leaves the matrix as it is); so it does on every matrix the
  constructor builds from a graph with non-negative costs, square or not. The first call
  returns when the first \<^verbatim>\<open>Size()\<close> rows and columns are in the storage and each
  holds a finite cell; on a square matrix with no all-infinite row or column, both calls
  return, the second with \<open>0\<close>.
\<close>

theorem second_reduction_returns_zero:
  "(ReduceMatrix Size cm = Inr (decremented, cm')
      \<and> (Size = numRows (cost_matrix cm)
          \<or> (\<forall>r < numRows (cost_matrix cm). \<forall>c < numColumns (cost_matrix cm).
                \<not> cmi_infinite (entries (cost_matrix cm) (r, c)) \<longrightarrow>
                0 \<le> cmi_value (entries (cost_matrix cm) (r, c))))
      \<longrightarrow> ReduceMatrix Size cm' = Inr (0, cm'))
   \<and> (Size \<le> numRows (cost_matrix cm) \<and> Size \<le> numColumns (cost_matrix cm)
        \<and> (\<forall>r < Size. vec_has_finite (cost_matrix cm) (CostRow r))
        \<and> (\<forall>c < Size. vec_has_finite (cost_matrix cm) (CostColumn c))
      \<longrightarrow> (\<exists>d cm1. ReduceMatrix Size cm = Inr (d, cm1)))
   \<and> (Size = numRows (cost_matrix cm) \<and> Size = numColumns (cost_matrix cm)
        \<and> reducible (cost_matrix cm)
      \<longrightarrow> (\<exists>d cm1. ReduceMatrix Size cm = Inr (d, cm1) \<and> ReduceMatrix Size cm1 = Inr (0, cm1)))
   \<and> (CostMatrix_ctor graph include exclude = Inr cm
        \<and> (\<forall>i < GetNumVertices graph. \<forall>j < GetNumVertices graph. 0 \<le> graph_cost graph i j)
        \<and> ReduceMatrix Size cm = Inr (decremented, cm')
      \<longrightarrow> ReduceMatrix Size cm' = Inr (0, cm'))"
proof -
  have 1: "ReduceMatrix Size cm' = Inr (0, cm')"
    if "ReduceMatrix Size cm = Inr (decremented, cm')
      \<and> (Size = numRows (cost_matrix cm)
          \<or> (\<forall>r < numRows (cost_matrix cm). \<forall>c < numColumns (cost_matrix cm).
                \<not> cmi_infinite (entries (cost_matrix cm) (r, c)) \<longrightarrow>
                0 \<le> cmi_value (entries (cost_matrix cm) (r, c))))"
    using that by (intro second_call_general[of Size cm decremented cm']) auto
  have 2: "\<exists>d cm1. ReduceMatrix Size cm = Inr (d, cm1)"
    if "Size \<le> numRows (cost_matrix cm) \<and> Size \<le> numColumns (cost_matrix cm)
        \<and> (\<forall>r < Size. vec_has_finite (cost_matrix cm) (CostRow r))
        \<and> (\<forall>c < Size. vec_has_finite (cost_matrix cm) (CostColumn c))"
    using ReduceMatrix_partial[of Size cm] that by simp
  have 3: "\<exists>d cm1. ReduceMatrix Size cm = Inr (d, cm1) \<and> ReduceMatrix Size cm1 = Inr (0, cm1)"
    if h: "Size = numRows (cost_matrix cm) \<and> Size = numColumns (cost_matrix cm)
        \<and> reducible (cost_matrix cm)"
  proof -
    from ReduceMatrix_result[of Size cm] h obtain d cm1 where
      r: "ReduceMatrix Size cm = Inr (d, cm1)" by simp
    have "ReduceMatrix Size cm1 = Inr (0, cm1)"
      using second_call_general[OF r] h by simp
    then show ?thesis using r by blast
  qed
  have 4: "ReduceMatrix Size cm' = Inr (0, cm')"
    if h: "CostMatrix_ctor graph include exclude = Inr cm
        \<and> (\<forall>i < GetNumVertices graph. \<forall>j < GetNumVertices graph. 0 \<le> graph_cost graph i j)
        \<and> ReduceMatrix Size cm = Inr (decremented, cm')"
  proof -
    have "\<forall>r < numRows (cost_matrix cm). \<forall>k < numColumns (cost_matrix cm).
           0 \<le> cmi_value (entries (cost_matrix cm) (r, k))"
      using CostMatrix_ctor_nonneg[of graph "include" exclude cm] h by blast
    then show ?thesis
      using h by (intro second_call_general[of Size cm decremented cm']) auto
  qed
  show ?thesis
    apply (intro conjI impI)
    subgoal by (rule 1)
    subgoal by (rule 2)
    subgoal by (rule 3)
    subgoal by (rule 4)
    done
qed

theorem second_reduction_returns_zero_witness:
  "(\<exists>cm'. ReduceMatrix 2 example_cm = Inr (15, cm') \<and> ReduceMatrix 2 cm' = Inr (0, cm'))
   \<and> (\<exists>cm cm'. CostMatrix_ctor wide_graph [Edge 0 1, Edge 2 1] [] = Inr cm
         \<and> numRows (cost_matrix cm) = 1 \<and> numColumns (cost_matrix cm) = 2
         \<and> ReduceMatrix 1 cm = Inr (6, cm') \<and> ReduceMatrix 1 cm' = Inr (0, cm'))
   \<and> (\<exists>cm cm'. CostMatrix_ctor wide_graph [Edge 1 0, Edge 1 2] [] = Inr cm
         \<and> numRows (cost_matrix cm) = 2 \<and> numColumns (cost_matrix cm) = 1
         \<and> ReduceMatrix 1 cm = Inr (10, cm') \<and> ReduceMatrix 1 cm' = Inr (0, cm'))"
proof -
  have d: "2 = numRows (cost_matrix example_cm)" "2 = numColumns (cost_matrix example_cm)"
    by (simp_all add: example_dims)
  from ReduceMatrix_result[OF d] example_reducible example_total
  have r: "ReduceMatrix 2 example_cm =
     Inr (15, example_cm\<lparr>cost_matrix :=
                subtract_column_minima (subtract_row_minima (cost_matrix example_cm))\<rparr>)"
    by (simp add: example_cm_def int32_wrap_id)
  have a: "\<exists>cm'. ReduceMatrix 2 example_cm = Inr (15, cm') \<and> ReduceMatrix 2 cm' = Inr (0, cm')"
    using second_reduction_returns_zero[of 2 example_cm 15
        "example_cm\<lparr>cost_matrix :=
                subtract_column_minima (subtract_row_minima (cost_matrix example_cm))\<rparr>"]
      r d(1)
    by blast
  from wide_example obtain cm cm0 cm' where
    c: "CostMatrix_ctor wide_graph [Edge 0 1, Edge 2 1] [] = Inr cm"
    and dw: "numRows (cost_matrix cm) = 1" "numColumns (cost_matrix cm) = 2"
    and r1: "ReduceMatrix 1 cm = Inr (6, cm')"
    by (elim exE conjE) (rule that; assumption)
  have "ReduceMatrix 1 cm' = Inr (0, cm')"
    using second_reduction_returns_zero[of 1 cm 6 cm'] r1 dw(1) by simp
  then have b: "\<exists>cm cm'. CostMatrix_ctor wide_graph [Edge 0 1, Edge 2 1] [] = Inr cm
         \<and> numRows (cost_matrix cm) = 1 \<and> numColumns (cost_matrix cm) = 2
         \<and> ReduceMatrix 1 cm = Inr (6, cm') \<and> ReduceMatrix 1 cm' = Inr (0, cm')"
    using c dw r1 by blast
  from tall_example obtain tm tm' where
    tc: "CostMatrix_ctor wide_graph [Edge 1 0, Edge 1 2] [] = Inr tm"
    and dt: "numRows (cost_matrix tm) = 2" "numColumns (cost_matrix tm) = 1"
    and rt: "ReduceMatrix 1 tm = Inr (10, tm')"
    by (elim exE conjE) (rule that; assumption)
  have g: "\<forall>i < GetNumVertices wide_graph. \<forall>j < GetNumVertices wide_graph.
             0 \<le> graph_cost wide_graph i j"
    by (simp add: wide_graph_def numeral_3_eq_3 All_less_Suc)
  have "ReduceMatrix 1 tm' = Inr (0, tm')"
    using second_reduction_returns_zero[of 1 tm 10 tm' wide_graph "[Edge 1 0, Edge 1 2]" "[]"]
      tc g rt
    by blast
  then have e: "\<exists>cm cm'. CostMatrix_ctor wide_graph [Edge 1 0, Edge 1 2] [] = Inr cm
         \<and> numRows (cost_matrix cm) = 2 \<and> numColumns (cost_matrix cm) = 1
         \<and> ReduceMatrix 1 cm = Inr (10, cm') \<and> ReduceMatrix 1 cm' = Inr (0, cm')"
    using tc dt rt by blast
  show ?thesis using a b e by (intro conjI)
qed

text \<open>
  Claim C6. Subtracting from an infinite cell leaves it as it is, infinite. Any number
  of successful \<open>ReduceMatrix\<close> calls, whatever \<^verbatim>\<open>Size()\<close> is, leaves every cell
  infinite or finite as it was, so an infinite cell read through \<open>operator()\<close> is still
  infinite afterwards, in particular the cell of an exclude edge of the constructor. And
  when the cell \<^verbatim>\<open>min_element\<close> selects in a view is infinite, every cell of that
  view is infinite.
\<close>

theorem infinite_cells_stay_infinite:
  "(IsInfinite c \<longrightarrow> cmi_minus c mn = c \<and> IsInfinite (cmi_minus c mn))
   \<and> (ReduceMatrix_times Size n cm = Inr cm' \<longrightarrow>
        (\<forall>p. IsInfinite (entries (cost_matrix cm') p) = IsInfinite (entries (cost_matrix cm) p))
        \<and> (\<forall>e x. CostMatrix_at cm e = Inr x \<and> IsInfinite x \<longrightarrow>
              (\<exists>x'. CostMatrix_at cm' e = Inr x' \<and> IsInfinite x')))
   \<and> (CostMatrix_ctor graph include exclude = Inr cm \<and> e \<in> set exclude
        \<and> both_available (GetNumVertices graph) include e
        \<and> ReduceMatrix_times Size n cm = Inr cm' \<longrightarrow>
        (\<exists>x'. CostMatrix_at cm' e = Inr x' \<and> IsInfinite x'))
   \<and> (min_element m vec 0 (Size_vec m vec) = Inr i \<and> vec_at m vec i = Inr selected
        \<and> IsInfinite selected \<longrightarrow>
        (\<forall>k < Size_vec m vec. \<exists>x. vec_at m vec k = Inr x \<and> IsInfinite x))"
proof -
  have 1: "IsInfinite c \<longrightarrow> cmi_minus c mn = c \<and> IsInfinite (cmi_minus c mn)"
    by (simp add: IsInfinite_def cmi_minus_def)
  have keep: "\<exists>x'. CostMatrix_at cm' e = Inr x' \<and> IsInfinite x'"
    if r: "ReduceMatrix_times Size n cm = Inr cm'" and a: "CostMatrix_at cm e = Inr x"
      and i: "IsInfinite x" for e x
  proof -
    from ReduceMatrix_times_same_infinite[OF r] have
      s: "same_infinite (cost_matrix cm) (cost_matrix cm')"
      and rm: "row_mapping cm' = row_mapping cm" and cmap: "column_mapping cm' = column_mapping cm"
      by simp_all
    from CostMatrix_at_same_infinite[OF s rm cmap a] i show ?thesis by auto
  qed
  have 2: "ReduceMatrix_times Size n cm = Inr cm' \<longrightarrow>
        (\<forall>p. IsInfinite (entries (cost_matrix cm') p) = IsInfinite (entries (cost_matrix cm) p))
        \<and> (\<forall>e x. CostMatrix_at cm e = Inr x \<and> IsInfinite x \<longrightarrow>
              (\<exists>x'. CostMatrix_at cm' e = Inr x' \<and> IsInfinite x'))"
  proof
    assume r: "ReduceMatrix_times Size n cm = Inr cm'"
    from ReduceMatrix_times_same_infinite[OF r]
    have "\<forall>p. IsInfinite (entries (cost_matrix cm') p) = IsInfinite (entries (cost_matrix cm) p)"
      by (simp add: same_infinite_def IsInfinite_def)
    then show "(\<forall>p. IsInfinite (entries (cost_matrix cm') p) = IsInfinite (entries (cost_matrix cm) p))
        \<and> (\<forall>e x. CostMatrix_at cm e = Inr x \<and> IsInfinite x \<longrightarrow>
              (\<exists>x'. CostMatrix_at cm' e = Inr x' \<and> IsInfinite x'))"
      using keep[OF r] by blast
  qed
  have 3: "CostMatrix_ctor graph include exclude = Inr cm \<and> e \<in> set exclude
        \<and> both_available (GetNumVertices graph) include e
        \<and> ReduceMatrix_times Size n cm = Inr cm' \<longrightarrow>
        (\<exists>x'. CostMatrix_at cm' e = Inr x' \<and> IsInfinite x')"
    using excluded_cell_infinite[of graph "include" exclude cm e] keep[of e] by blast
  have 4: "min_element m vec 0 (Size_vec m vec) = Inr i \<and> vec_at m vec i = Inr selected
        \<and> IsInfinite selected \<longrightarrow>
        (\<forall>k < Size_vec m vec. \<exists>x. vec_at m vec k = Inr x \<and> IsInfinite x)"
    using min_element_infinite_only_if_all[of m vec i selected] by blast
  show ?thesis using 1 2 3 4 by blast
qed

theorem infinite_cells_stay_infinite_witness:
  "IsInfinite (cmi_minus (SetInfinite default_cell) default_cell)
   \<and> (\<exists>cm'. ReduceMatrix_times 2 2 example_cm = Inr cm'
         \<and> (\<exists>x'. CostMatrix_at cm' (Edge 1 1) = Inr x' \<and> IsInfinite x'))
   \<and> (\<exists>cm cm'. CostMatrix_ctor small_graph [] [Edge 0 0, Edge 1 1] = Inr cm
         \<and> ReduceMatrix_times 2 1 cm = Inr cm'
         \<and> (\<exists>x'. CostMatrix_at cm' (Edge 0 0) = Inr x' \<and> IsInfinite x'))
   \<and> (\<exists>x. vec_at (cost_matrix blocked_cm) (CostRow 0) 0 = Inr x \<and> IsInfinite x)
   \<and> (\<exists>x. vec_at (cost_matrix blocked_cm) (CostRow 0) 1 = Inr x \<and> IsInfinite x)"
proof -
  have a0: "IsInfinite (SetInfinite default_cell)"
    by (simp add: IsInfinite_def SetInfinite_def)
  have 1: "IsInfinite (cmi_minus (SetInfinite default_cell) default_cell)"
    using infinite_cells_stay_infinite[of "SetInfinite default_cell" default_cell] a0 by blast
  have "case ReduceMatrix_times 2 2 example_cm of Inl x \<Rightarrow> False | Inr cm' \<Rightarrow> True"
    by code_simp
  then obtain cm2 where r2: "ReduceMatrix_times 2 2 example_cm = Inr cm2"
    by (auto split: sum.splits)
  have at: "CostMatrix_at example_cm (Edge 1 1) = Inr (entries example_matrix (1, 1))"
    and inf: "IsInfinite (entries example_matrix (1, 1))"
    by code_simp+
  have 2: "\<exists>x'. CostMatrix_at cm2 (Edge 1 1) = Inr x' \<and> IsInfinite x'"
    using infinite_cells_stay_infinite[of _ _ 2 2 example_cm cm2] r2 at inf by blast
  have "case CostMatrix_ctor small_graph [] [Edge 0 0, Edge 1 1] of
          Inl x \<Rightarrow> False
        | Inr cm \<Rightarrow> (case ReduceMatrix_times 2 1 cm of Inl x \<Rightarrow> False | Inr cm' \<Rightarrow> True)"
    by code_simp
  then obtain cm cm' where c: "CostMatrix_ctor small_graph [] [Edge 0 0, Edge 1 1] = Inr cm"
    and r1: "ReduceMatrix_times 2 1 cm = Inr cm'"
    by (auto split: sum.splits)
  have b: "Edge 0 0 \<in> set [Edge 0 0, Edge 1 1]"
    "both_available (GetNumVertices small_graph) [] (Edge 0 0)"
    by (simp_all add: both_available_def small_graph_def)
  have 3: "\<exists>x'. CostMatrix_at cm' (Edge 0 0) = Inr x' \<and> IsInfinite x'"
    using infinite_cells_stay_infinite[of _ _ 2 1 cm cm' small_graph "[]"
        "[Edge 0 0, Edge 1 1]" "Edge 0 0"] c r1 b
    by blast
  have mi: "min_element (cost_matrix blocked_cm) (CostRow 0) 0
            (Size_vec (cost_matrix blocked_cm) (CostRow 0)) = Inr 0"
    and va: "vec_at (cost_matrix blocked_cm) (CostRow 0) 0 =
               Inr (SetInfinite (entries example_matrix (0, 0)))"
    by code_simp+
  have sz: "numColumns (cost_matrix blocked_cm) = 2"
    by (simp add: blocked_cm_def example_matrix_def)
  have si: "IsInfinite (SetInfinite (entries example_matrix (0, 0)))"
    by (simp add: IsInfinite_def SetInfinite_def)
  have all: "\<forall>k < Size_vec (cost_matrix blocked_cm) (CostRow 0).
          \<exists>x. vec_at (cost_matrix blocked_cm) (CostRow 0) k = Inr x \<and> IsInfinite x"
    using infinite_cells_stay_infinite[of _ _ _ _ _ _ _ _ _ _ "cost_matrix blocked_cm" "CostRow 0" 0
        "SetInfinite (entries example_matrix (0, 0))"] mi va si
    by blast
  have 4: "\<exists>x. vec_at (cost_matrix blocked_cm) (CostRow 0) 0 = Inr x \<and> IsInfinite x"
    "\<exists>x. vec_at (cost_matrix blocked_cm) (CostRow 0) 1 = Inr x \<and> IsInfinite x"
    using all[rule_format, of 0] all[rule_format, of 1] by (simp_all add: sz)
  show ?thesis using 1 2 3 4 r2 c r1 by blast
qed

end
